theory Spec2Isabelle
  imports Main
begin

section \<open>Data model of \<open>simulation.py\<close>\<close>

text \<open>
  Exceptions of the Python run time that the code can raise. Every function that can
  raise returns a sum, with \<open>Inl\<close> for the exception.
\<close>

datatype py_error = UnboundLocalError | TypeError | IndexError | KeyError

text \<open>
  \<open>ChannelEvent\<close> and \<open>Channel\<close> are the two dataclasses of the renderer. The field
  \<open>value\<close> is called \<open>val\<close> and the field \<open>size\<close> is called \<open>size_ch\<close> here. Strings
  are lists of characters; the waveform alphabet is ASCII, so one character is one
  Python code point.
\<close>

text \<open>
  The tokens come from the tokenizer of the \<open>vcd\<close> package (\<open>vcd.reader\<close>). A token has
  a kind and a payload whose type is fixed by the kind, so a token is a tagged union with
  one constructor for each kind that the code names; the kinds the code never looks at
  (comments, version, \<open>$upscope\<close>, \<open>$enddefinitions\<close>, the dump commands) are \<open>OTHER\<close>.

  \<^item> \<open>VarDecl\<close>: the code reads \<open>id_code\<close>, \<open>reference\<close> and \<open>bit_index\<close>; the
    bit index is \<open>None\<close>, an integer (\<open>[3]\<close>) or a pair of integers (\<open>[7:0]\<close>).
  \<^item> \<open>ScopeDecl\<close>: the code reads \<open>ident\<close> only, which is the payload of \<open>TScope\<close>.
  \<^item> A change has an \<open>id_code\<close> and a \<open>value\<close>: a string for a scalar or string change,
    an integer or a string for a vector change, a float for a real change. The code never
    looks into a float; \<open>RealV m e\<close> stands for \<open>m * 2 ^ e\<close>.
\<close>

datatype bit_index = NoIndex | Idx int | Range int int

record VarDecl =
  id_code :: string
  reference :: string
  bit_index :: bit_index

datatype pyval = StrV string | IntV int | RealV int int

record Change =
  change_id :: string
  change_value :: pyval

datatype TokenKind =
  DATE | TIMESCALE | SCOPE | VAR | CHANGE_TIME | CHANGE_SCALAR | CHANGE_VECTOR
  | CHANGE_REAL | CHANGE_STRING | OTHER

datatype Token =
  TDate string
  | TTimescale string
  | TScope string
  | TVar VarDecl
  | TChangeTime int
  | TChangeScalar Change
  | TChangeVector Change
  | TChangeReal Change
  | TChangeString Change
  | TOther

fun kind :: "Token \<Rightarrow> TokenKind" where
  "kind (TDate _) = DATE"
| "kind (TTimescale _) = TIMESCALE"
| "kind (TScope _) = SCOPE"
| "kind (TVar _) = VAR"
| "kind (TChangeTime _) = CHANGE_TIME"
| "kind (TChangeScalar _) = CHANGE_SCALAR"
| "kind (TChangeVector _) = CHANGE_VECTOR"
| "kind (TChangeReal _) = CHANGE_REAL"
| "kind (TChangeString _) = CHANGE_STRING"
| "kind TOther = OTHER"

text \<open>The payload of a change token of any of the four kinds.\<close>

fun change_data :: "Token \<Rightarrow> Change option" where
  "change_data (TChangeScalar c) = Some c"
| "change_data (TChangeVector c) = Some c"
| "change_data (TChangeReal c) = Some c"
| "change_data (TChangeString c) = Some c"
| "change_data _ = None"

record ChannelEvent =
  time :: int
  val :: string

record Channel =
  size_ch :: int
  module :: string
  name :: string
  events :: "ChannelEvent list"

section \<open>Reconstruction: \<open>VcdSimulation\<close>\<close>

subsection \<open>Python dictionaries\<close>

text \<open>
  A \<open>dict\<close> keeps its keys in insertion order, and the code iterates over its
  dictionaries, so a dictionary is an association list with distinct keys.
  \<open>dict_set d k v\<close> is \<open>d[k] = v\<close>: an existing key keeps its place, a new key goes to
  the end. \<open>dict_modify d k f\<close> replaces the value stored under \<open>k\<close> by \<open>f\<close> of it, which is
  what a mutation of the object \<open>d[k]\<close> amounts to. No key is ever removed.
\<close>

fun dict_set :: "('k \<times> 'v) list \<Rightarrow> 'k \<Rightarrow> 'v \<Rightarrow> ('k \<times> 'v) list" where
  "dict_set [] k v = [(k, v)]"
| "dict_set ((k', v') # d) k v =
     (if k' = k then (k', v) # d else (k', v') # dict_set d k v)"

fun dict_modify :: "('k \<times> 'v) list \<Rightarrow> 'k \<Rightarrow> ('v \<Rightarrow> 'v) \<Rightarrow> ('k \<times> 'v) list" where
  "dict_modify [] k f = []"
| "dict_modify ((k', v') # d) k f =
     (if k' = k then (k', f v') # d else (k', v') # dict_modify d k f)"

definition dict_keys :: "('k \<times> 'v) list \<Rightarrow> 'k list" where
  "dict_keys d = map fst d"

definition dict_values :: "('k \<times> 'v) list \<Rightarrow> 'v list" where
  "dict_values d = map snd d"

subsection \<open>\<open>scope_vars\<close>: the Declaration Index\<close>

type_synonym var_group = "(bit_index \<times> VarDecl) list"
type_synonym scope_index = "(string \<times> (string \<times> var_group) list) list"

text \<open>
  One round of the loop over the tokens. The state is the dictionary \<open>acc\<close> and the local
  variable \<open>scope\<close>, which is unbound (\<open>None\<close>) until the first \<open>SCOPE\<close> token.
\<close>

fun scope_vars_step ::
  "scope_index \<times> string option \<Rightarrow> Token \<Rightarrow> py_error + scope_index \<times> string option" where
  "scope_vars_step (acc, scope) (TScope ident) = Inr (dict_set acc ident [], Some ident)"
| "scope_vars_step (acc, scope) (TVar d) =
     (case scope of
        None \<Rightarrow> Inl UnboundLocalError
      | Some s \<Rightarrow>
          (case map_of acc s of
             None \<Rightarrow> Inl KeyError
           | Some channels \<Rightarrow>
               (let var = reference d;
                    channels' = (if var \<notin> set (dict_keys channels)
                                 then dict_set channels var [] else channels);
                    channels'' = dict_modify channels' var (\<lambda>g. dict_set g (bit_index d) d)
                in Inr (dict_set acc s channels'', scope))))"
| "scope_vars_step (acc, scope) _ = Inr (acc, scope)"

fun run_steps :: "('s \<Rightarrow> Token \<Rightarrow> py_error + 's) \<Rightarrow> 's \<Rightarrow> Token list \<Rightarrow> py_error + 's" where
  "run_steps step s [] = Inr s"
| "run_steps step s (token # tokens) =
     (case step s token of Inl e \<Rightarrow> Inl e | Inr s' \<Rightarrow> run_steps step s' tokens)"

definition scope_vars :: "Token list \<Rightarrow> py_error + scope_index" where
  "scope_vars tokens =
     (case run_steps scope_vars_step ([], None) tokens of
        Inl e \<Rightarrow> Inl e | Inr (acc, scope) \<Rightarrow> Inr acc)"

subsection \<open>\<open>time_changes\<close>: the Timed Change Set\<close>

type_synonym timed_changes = "(int \<times> Change list) list"

text \<open>
  The condition of the \<open>elif\<close>, as the source writes it. Python reads the chain
  \<^verbatim>\<open>token.kind == CHANGE_REAL == token.kind == CHANGE_STRING\<close> as the conjunction of the
  three comparisons of neighbours.
\<close>

definition is_change_kind :: "TokenKind \<Rightarrow> bool" where
  "is_change_kind k \<longleftrightarrow>
     k = CHANGE_SCALAR \<or> k = CHANGE_VECTOR
     \<or> (k = CHANGE_REAL \<and> CHANGE_REAL = k \<and> k = CHANGE_STRING)"

text \<open>
  One round of the loop. The state is the dictionary \<open>acc\<close> and the local variable
  \<open>time\<close> (here \<open>now\<close>), unbound until the first \<open>CHANGE_TIME\<close> token.
\<close>

fun time_changes_step ::
  "timed_changes \<times> int option \<Rightarrow> Token \<Rightarrow> py_error + timed_changes \<times> int option" where
  "time_changes_step (acc, now) (TChangeTime t) = Inr (dict_set acc t [], Some t)"
| "time_changes_step (acc, now) token =
     (if is_change_kind (kind token) then
        (case change_data token of
           None \<Rightarrow> Inr (acc, now)
         | Some change \<Rightarrow>
             (case now of
                None \<Rightarrow> Inl UnboundLocalError
              | Some t \<Rightarrow>
                  if t \<in> set (dict_keys acc)
                  then Inr (dict_modify acc t (\<lambda>cs. cs @ [change]), now)
                  else Inl KeyError))
      else Inr (acc, now))"

definition time_changes :: "Token list \<Rightarrow> py_error + timed_changes" where
  "time_changes tokens =
     (case run_steps time_changes_step ([], None) tokens of
        Inl e \<Rightarrow> Inl e | Inr (acc, now) \<Rightarrow> Inr acc)"

subsection \<open>\<open>to_events\<close>: the Channel Reconstructor\<close>

text \<open>
  \<open>sorted(vars.values(), key=lambda x: x.bit_index, reverse=True)\<close>. Python compares two
  integers, and two pairs of integers lexicographically; every other comparison of two
  bit indices raises \<open>TypeError\<close>. A sort of two or more elements compares every element
  with another one, and sorts only when all the comparisons it makes are defined, so it
  raises unless all the keys are integers or all are pairs. The sort is stable, also
  with \<open>reverse=True\<close>.
\<close>

fun key_less :: "bit_index \<Rightarrow> bit_index \<Rightarrow> bool" where
  "key_less (Idx a) (Idx b) \<longleftrightarrow> a < b"
| "key_less (Range a b) (Range c d) \<longleftrightarrow> a < c \<or> (a = c \<and> b < d)"
| "key_less _ _ \<longleftrightarrow> False"

fun is_Idx :: "bit_index \<Rightarrow> bool" where
  "is_Idx (Idx _) = True"
| "is_Idx _ = False"

fun is_Range :: "bit_index \<Rightarrow> bool" where
  "is_Range (Range _ _) = True"
| "is_Range _ = False"

fun insert_desc :: "VarDecl \<Rightarrow> VarDecl list \<Rightarrow> VarDecl list" where
  "insert_desc x [] = [x]"
| "insert_desc x (y # ys) =
     (if key_less (bit_index x) (bit_index y) then y # insert_desc x ys else x # y # ys)"

definition sorted_desc :: "VarDecl list \<Rightarrow> py_error + VarDecl list" where
  "sorted_desc vs =
     (if 2 \<le> length vs \<and> \<not> (list_all (\<lambda>v. is_Idx (bit_index v)) vs
                                \<or> list_all (\<lambda>v. is_Range (bit_index v)) vs)
      then Inl TypeError
      else Inr (foldr insert_desc vs []))"

text \<open>
  \<open>value[index] = x\<close> on a list: an index from \<open>-len\<close> up to \<open>len - 1\<close> is accepted, a
  negative one counting from the end; any other integer raises \<open>IndexError\<close>.
\<close>

definition list_assign :: "'a list \<Rightarrow> int \<Rightarrow> 'a \<Rightarrow> py_error + 'a list" where
  "list_assign xs i x =
     (let n = int (length xs)
      in if 0 \<le> i \<and> i < n then Inr (xs[nat i := x])
         else if - n \<le> i \<and> i < 0 then Inr (xs[nat (n + i) := x])
         else Inl IndexError)"

text \<open>
  \<^verbatim>\<open>index = var.bit_index if var.bit_index is not None else 0; value[index] = change.value\<close>.
  A pair as index raises \<open>TypeError\<close>.
\<close>

definition store_bit :: "pyval list \<Rightarrow> VarDecl \<Rightarrow> pyval \<Rightarrow> py_error + pyval list" where
  "store_bit value var x =
     (case bit_index var of
        NoIndex \<Rightarrow> list_assign value 0 x
      | Idx i \<Rightarrow> list_assign value i x
      | Range _ _ \<Rightarrow> Inl TypeError)"

text \<open>The loop \<open>for var in vars\<close> for one change; the state is \<open>(value, has_changed)\<close>.\<close>

fun apply_change ::
  "Change \<Rightarrow> VarDecl list \<Rightarrow> pyval list \<times> bool \<Rightarrow> py_error + pyval list \<times> bool" where
  "apply_change change [] st = Inr st"
| "apply_change change (var # vars) (value, has_changed) =
     (if change_id change = id_code var then
        (case store_bit value var (change_value change) of
           Inl e \<Rightarrow> Inl e
         | Inr value' \<Rightarrow> apply_change change vars (value', True))
      else apply_change change vars (value, has_changed))"

text \<open>The loop \<open>for change in changes\<close>.\<close>

fun apply_changes ::
  "Change list \<Rightarrow> VarDecl list \<Rightarrow> pyval list \<times> bool \<Rightarrow> py_error + pyval list \<times> bool" where
  "apply_changes [] vars st = Inr st"
| "apply_changes (change # changes) vars st =
     (case apply_change change vars st of
        Inl e \<Rightarrow> Inl e
      | Inr st' \<Rightarrow> apply_changes changes vars st')"

text \<open>\<open>''.join(value)\<close>: every element has to be a string.\<close>

fun join_values :: "pyval list \<Rightarrow> py_error + string" where
  "join_values [] = Inr []"
| "join_values (StrV s # vs) =
     (case join_values vs of Inl e \<Rightarrow> Inl e | Inr r \<Rightarrow> Inr (s @ r))"
| "join_values (_ # vs) = Inl TypeError"

text \<open>The loop over \<open>self.time_changes.items()\<close>; \<open>value\<close> lives across the rounds.\<close>

fun events_loop ::
  "timed_changes \<Rightarrow> VarDecl list \<Rightarrow> pyval list \<Rightarrow> ChannelEvent list
   \<Rightarrow> py_error + ChannelEvent list" where
  "events_loop [] vars value acc = Inr acc"
| "events_loop ((t, changes) # rest) vars value acc =
     (case apply_changes changes vars (value, False) of
        Inl e \<Rightarrow> Inl e
      | Inr (value', has_changed) \<Rightarrow>
          if has_changed then
            (case join_values value' of
               Inl e \<Rightarrow> Inl e
             | Inr s \<Rightarrow> events_loop rest vars value' (acc @ [\<lparr>time = t, val = s\<rparr>]))
          else events_loop rest vars value' acc)"

text \<open>
  \<open>to_events\<close> of the simulation over \<open>tokens\<close>. The sort comes before the first read of
  \<open>self.time_changes\<close>, so its \<open>TypeError\<close> comes first.
\<close>

definition to_events :: "Token list \<Rightarrow> var_group \<Rightarrow> py_error + ChannelEvent list" where
  "to_events tokens vars =
     (let value = replicate (length vars) (StrV ''X'')
      in case sorted_desc (dict_values vars) of
           Inl e \<Rightarrow> Inl e
         | Inr vars' \<Rightarrow>
             (case time_changes tokens of
                Inl e \<Rightarrow> Inl e
              | Inr tc \<Rightarrow> events_loop tc vars' value []))"

subsection \<open>\<open>to_channel\<close>\<close>

fun channels_loop ::
  "Token list \<Rightarrow> string \<Rightarrow> (string \<times> var_group) list \<Rightarrow> Channel list
   \<Rightarrow> py_error + Channel list" where
  "channels_loop tokens m [] acc = Inr acc"
| "channels_loop tokens m ((channel_name, vars) # rest) acc =
     (case to_events tokens vars of
        Inl e \<Rightarrow> Inl e
      | Inr evs \<Rightarrow>
          channels_loop tokens m rest
            (acc @ [\<lparr>size_ch = int (length vars), module = m, name = channel_name, events = evs\<rparr>]))"

fun modules_loop :: "Token list \<Rightarrow> scope_index \<Rightarrow> Channel list \<Rightarrow> py_error + Channel list" where
  "modules_loop tokens [] acc = Inr acc"
| "modules_loop tokens ((m, channels) # rest) acc =
     (case channels_loop tokens m channels acc of
        Inl e \<Rightarrow> Inl e
      | Inr acc' \<Rightarrow> modules_loop tokens rest acc')"

definition to_channel :: "Token list \<Rightarrow> py_error + Channel list" where
  "to_channel tokens =
     (case scope_vars tokens of
        Inl e \<Rightarrow> Inl e
      | Inr index \<Rightarrow> modules_loop tokens index [])"

section \<open>Diagram renderer\<close>

subsection \<open>Decimal text of an integer, as \<open>str\<close> and the f-string give it\<close>

definition digit_char :: "nat \<Rightarrow> char" where
  "digit_char d = ''0123456789'' ! d"

function show_nat :: "nat \<Rightarrow> string" where
  "show_nat n = (if n < 10 then [digit_char n] else show_nat (n div 10) @ [digit_char (n mod 10)])"
  by pat_completeness auto
termination
  by (relation "measure id") auto

declare show_nat.simps [simp del]

definition str_int :: "int \<Rightarrow> string" where
  "str_int i = (if i < 0 then CHR ''-'' # show_nat (nat (- i)) else show_nat (nat i))"

text \<open>\<open>sep.join(xs)\<close> on a list of strings.\<close>

fun join :: "string \<Rightarrow> string list \<Rightarrow> string" where
  "join sep [] = []"
| "join sep [x] = x"
| "join sep (x # y # ys) = x @ sep @ join sep (y # ys)"

subsection \<open>\<open>Channel.value_at\<close> and \<open>Channel.next_event\<close>\<close>

text \<open>
  Both methods start with the same loop:
  \<^verbatim>\<open>i = 0; while i < len(self.events) and self.events[i].time <= time: i += 1\<close>.
  \<open>scan_events evs t i\<close> is the value of \<open>i\<close> when the loop that is entered with \<open>i\<close>
  ends.
\<close>

function scan_events :: "ChannelEvent list \<Rightarrow> int \<Rightarrow> nat \<Rightarrow> nat" where
  "scan_events evs t i =
     (if i < length evs \<and> time (evs ! i) \<le> t then scan_events evs t (i + 1) else i)"
  by pat_completeness auto
termination
  by (relation "measure (\<lambda>(evs, t, i). length evs - i)") auto

declare scan_events.simps [simp del]

definition value_at :: "Channel \<Rightarrow> int \<Rightarrow> string" where
  "value_at ch t =
     (let i = scan_events (events ch) t 0
      in if i = 0 then ''X'' else val (events ch ! (i - 1)))"

definition next_event :: "Channel \<Rightarrow> int \<Rightarrow> ChannelEvent option" where
  "next_event ch t =
     (let i = scan_events (events ch) t 0
      in if i \<ge> length (events ch) then None else Some (events ch ! i))"

lemma scan_events_takeWhile:
  "i \<le> length evs \<Longrightarrow>
   scan_events evs t i = i + length (takeWhile (\<lambda>e. time e \<le> t) (drop i evs))"
proof (induction evs t i rule: scan_events.induct)
  case (1 evs t i)
  show ?case
  proof (cases "i < length evs \<and> time (evs ! i) \<le> t")
    case True
    then have d: "drop i evs = evs ! i # drop (Suc i) evs"
      by (simp add: Cons_nth_drop_Suc)
    from True have "scan_events evs t i = scan_events evs t (i + 1)"
      by (subst scan_events.simps) simp
    also have "\<dots> = (i + 1) + length (takeWhile (\<lambda>e. time e \<le> t) (drop (i + 1) evs))"
      using "1.IH" True by simp
    finally show ?thesis using True d by simp
  next
    case False
    have s: "scan_events evs t i = i"
      by (subst scan_events.simps) (simp only: False if_False)
    show ?thesis
    proof (cases "i < length evs")
      case True
      with False have "\<not> time (evs ! i) \<le> t" by simp
      moreover from True have "drop i evs = evs ! i # drop (Suc i) evs"
        by (simp add: Cons_nth_drop_Suc)
      ultimately show ?thesis using s by simp
    next
      case False
      with "1.prems" show ?thesis using s by simp
    qed
  qed
qed

lemma scan_events_0:
  "scan_events evs t 0 = length (takeWhile (\<lambda>e. time e \<le> t) evs)"
  using scan_events_takeWhile [of 0 evs t] by simp

lemma next_event_later:
  assumes "next_event ch t = Some ev"
  shows "t < time ev"
proof -
  let ?evs = "events ch"
  let ?i = "length (takeWhile (\<lambda>e. time e \<le> t) ?evs)"
  from assms have lt: "?i < length ?evs" and ev: "ev = ?evs ! ?i"
    by (auto simp: next_event_def scan_events_0 Let_def split: if_splits)
  from lt have "\<not> time (?evs ! ?i) \<le> t"
    using nth_length_takeWhile [of "\<lambda>e. time e \<le> t" ?evs] by simp
  with ev show ?thesis by simp
qed

subsection \<open>\<open>Channel.to_tikz_line\<close>\<close>

text \<open>
  The loop of \<open>to_tikz_line\<close>, on the pairs \<open>(signal_duration, signal_type)\<close> that the
  source formats and appends in each round. \<open>acc\<close> holds the pairs of the earlier rounds.
\<close>

function tikz_segments ::
  "Channel \<Rightarrow> int \<Rightarrow> string \<Rightarrow> int \<Rightarrow> (int \<times> string) list \<Rightarrow> (int \<times> string) list" where
  "tikz_segments ch end current_value current_time acc =
     (if current_time < end then
        (case next_event ch current_time of
           None \<Rightarrow> acc @ [(end - current_time, current_value)]
         | Some ev \<Rightarrow>
             tikz_segments ch end (val ev) (time ev)
               (acc @ [(time ev - current_time, current_value)]))
      else acc)"
  by pat_completeness auto
termination
proof (relation "measure (\<lambda>(ch, end, v, t, acc). nat (end - t))")
  show "wf (measure (\<lambda>(ch, end, v, t, acc). nat (end - t)))" by simp
next
  fix ch :: Channel and "end" current_time :: int and current_value :: string
    and acc :: "(int \<times> string) list" and ev
  assume "current_time < end" and "next_event ch current_time = Some ev"
  then show "((ch, end, val ev, time ev, acc @ [(time ev - current_time, current_value)]),
              (ch, end, current_value, current_time, acc))
             \<in> measure (\<lambda>(ch, end, v, t, acc). nat (end - t))"
    using next_event_later [of ch current_time ev] by simp
qed

declare tikz_segments.simps [simp del]

definition segments :: "Channel \<Rightarrow> int \<Rightarrow> int \<Rightarrow> (int \<times> string) list" where
  "segments ch start end = tikz_segments ch end (value_at ch start) start []"

text \<open>The f-string \<^verbatim>\<open>f'{signal_duration}{{{signal_type}}}'\<close>.\<close>

definition fmt_segment :: "int \<times> string \<Rightarrow> string" where
  "fmt_segment seg = str_int (fst seg) @ ''{'' @ snd seg @ ''}''"

definition to_tikz_line :: "Channel \<Rightarrow> int \<Rightarrow> int \<Rightarrow> string" where
  "to_tikz_line ch start end =
     join '' '' ((name ch @ '' &'') # map fmt_segment (segments ch start end))"

section \<open>Notions used in the statements\<close>

text \<open>
  The definitions of this section are not part of the program. They name what the
  statements and the lemmas below talk about.
\<close>

text \<open>
  For the statements about the Timed Change Set: a timestamp marker is a token of kind
  \<open>CHANGE_TIME\<close>, and \<open>recorded tokens\<close> lists the payloads of the scalar and vector
  changes among \<open>tokens\<close>, in order. These are the changes that \<open>time_changes\<close> appends.
\<close>

definition is_marker :: "Token \<Rightarrow> bool" where
  "is_marker token \<longleftrightarrow> kind token = CHANGE_TIME"

fun recorded :: "Token list \<Rightarrow> Change list" where
  "recorded [] = []"
| "recorded (TChangeScalar c # tokens) = c # recorded tokens"
| "recorded (TChangeVector c # tokens) = c # recorded tokens"
| "recorded (_ # tokens) = recorded tokens"

text \<open>The timestamps of the markers of a token sequence, in order.\<close>

fun timestamps :: "Token list \<Rightarrow> int list" where
  "timestamps [] = []"
| "timestamps (TChangeTime t # tokens) = t # timestamps tokens"
| "timestamps (_ # tokens) = timestamps tokens"

text \<open>All the declarations of a Declaration Index.\<close>

definition declarations :: "scope_index \<Rightarrow> VarDecl list" where
  "declarations index =
     concat (map (\<lambda>(m, grp). concat (map (\<lambda>(n, vars). dict_values vars) grp)) index)"

text \<open>\<open>is_change c token\<close>: the token is a value change, of any of the four kinds, with payload \<open>c\<close>.\<close>

definition is_change :: "Change \<Rightarrow> Token \<Rightarrow> bool" where
  "is_change c token \<longleftrightarrow>
     token = TChangeScalar c \<or> token = TChangeVector c
     \<or> token = TChangeReal c \<or> token = TChangeString c"

text \<open>The Timed Change Set without the changes that carry the id-code \<open>i\<close>.\<close>

definition without_id :: "string \<Rightarrow> timed_changes \<Rightarrow> timed_changes" where
  "without_id i tc = map (\<lambda>(t, cs). (t, filter (\<lambda>x. change_id x \<noteq> i) cs)) tc"

text \<open>
  \<open>touches vars cs\<close>: some change of the list \<open>cs\<close> carries the id-code of one of the
  declarations \<open>vars\<close>.
\<close>

definition touches :: "VarDecl list \<Rightarrow> Change list \<Rightarrow> bool" where
  "touches vars cs \<longleftrightarrow> (\<exists>c\<in>set cs. \<exists>v\<in>set vars. change_id c = id_code v)"

text \<open>
  \<open>bit_buffer n value\<close>: the working buffer has \<open>n\<close> positions and every position holds a
  string of one character.
\<close>

definition bit_buffer :: "nat \<Rightarrow> pyval list \<Rightarrow> bool" where
  "bit_buffer n value \<longleftrightarrow> length value = n \<and> (\<forall>x\<in>set value. \<exists>c. x = StrV [c])"

section \<open>Properties of the renderer\<close>

text \<open>
  C9. A channel with no events, rendered over a window \<open>[s, e)\<close> with \<open>s < e\<close>, gives exactly
  one segment, of duration \<open>e - s\<close> and with the unknown symbol \<open>X\<close>; the line reads
  \<open>NAME & (e-s){X}\<close>.
\<close>

theorem empty_channel_renders_unknown:
  assumes "events ch = []" and "s < e"
  shows "segments ch s e = [(e - s, ''X'')]
         \<and> to_tikz_line ch s e = name ch @ '' & '' @ str_int (e - s) @ ''{X}''"
proof -
  from assms(1) have v: "value_at ch s = ''X''"
    by (simp add: value_at_def scan_events_0)
  from assms(1) have n: "next_event ch s = None"
    by (simp add: next_event_def scan_events_0)
  have seg: "segments ch s e = [(e - s, ''X'')]"
    unfolding segments_def v
    by (subst tikz_segments.simps) (simp add: assms(2) n)
  then show ?thesis
    by (simp add: to_tikz_line_def fmt_segment_def)
qed

theorem empty_channel_renders_unknown_witness:
  "events \<lparr>size_ch = 1, module = ''teste'', name = ''enable'', events = []\<rparr> = []
   \<and> (3::int) < 17
   \<and> segments \<lparr>size_ch = 1, module = ''teste'', name = ''enable'', events = []\<rparr> 3 17 = [(14, ''X'')]
   \<and> to_tikz_line \<lparr>size_ch = 1, module = ''teste'', name = ''enable'', events = []\<rparr> 3 17
       = ''enable & 14{X}''"
  using empty_channel_renders_unknown
    [of "\<lparr>size_ch = 1, module = ''teste'', name = ''enable'', events = []\<rparr>" 3 17]
  by (simp add: str_int_def show_nat.simps digit_char_def)

text \<open>
  C1. The claim: the segments of a window \<open>[start, end)\<close> sum to \<open>end - start\<close>, and the
  channel \<open>enable\<close> with the events \<open>(0, 0)\<close> and \<open>(30, 1)\<close> renders over \<open>[5, 15)\<close> as the
  single segment \<open>10{0}\<close>. The code gives the single segment \<open>25{0}\<close>: a segment ends at
  the next event also when that event lies after \<open>end\<close>; only the branch without a next
  event ends the segment at \<open>end\<close>.
\<close>

theorem enable_window_overshoots:
  "segments \<lparr>size_ch = 1, module = ''teste'', name = ''enable'',
      events = [\<lparr>time = 0, val = ''0''\<rparr>, \<lparr>time = 30, val = ''1''\<rparr>]\<rparr> 5 15 = [(25, ''0'')]
   \<and> to_tikz_line \<lparr>size_ch = 1, module = ''teste'', name = ''enable'',
      events = [\<lparr>time = 0, val = ''0''\<rparr>, \<lparr>time = 30, val = ''1''\<rparr>]\<rparr> 5 15 = ''enable & 25{0}''"
  by code_simp

lemma takeWhile_filter_sorted:
  "sorted (map time evs) \<Longrightarrow>
   takeWhile (\<lambda>e. time e \<le> t) evs = filter (\<lambda>e. time e \<le> t) evs"
proof (induction evs)
  case Nil
  show ?case by simp
next
  case (Cons e evs)
  show ?case
  proof (cases "time e \<le> t")
    case True
    with Cons show ?thesis by simp
  next
    case False
    with Cons.prems have "\<forall>x\<in>set evs. \<not> time x \<le> t" by fastforce
    then have "filter (\<lambda>e. time e \<le> t) evs = []" by (simp add: filter_empty_conv)
    with False show ?thesis by simp
  qed
qed

lemma sorted_le_last:
  "sorted (map time evs) \<Longrightarrow> e \<in> set evs \<Longrightarrow> time e \<le> time (last evs)"
  by (induction evs) auto

lemma value_at_takeWhile:
  "value_at ch t =
     (if takeWhile (\<lambda>e. time e \<le> t) (events ch) = [] then ''X''
      else val (last (takeWhile (\<lambda>e. time e \<le> t) (events ch))))"
proof -
  let ?tw = "takeWhile (\<lambda>e. time e \<le> t) (events ch)"
  show ?thesis
  proof (cases "?tw = []")
    case True
    then show ?thesis by (simp add: value_at_def scan_events_0)
  next
    case False
    then have pos: "0 < length ?tw" by simp
    have "last ?tw = ?tw ! (length ?tw - 1)" using False by (rule last_conv_nth)
    also have "\<dots> = events ch ! (length ?tw - 1)"
      using pos by (intro takeWhile_nth) simp
    finally show ?thesis using False pos by (simp add: value_at_def scan_events_0)
  qed
qed

text \<open>
  C7. The claim: for every channel and every time \<open>t\<close>, \<open>value_at\<close> gives the value of the
  latest event whose timestamp is at most \<open>t\<close>, and \<open>X\<close> when there is none. The loop stops
  at the first event that is later than \<open>t\<close>, so this holds for a channel whose events are
  in order of timestamp (non-decreasing): then the events up to \<open>t\<close> are a prefix of the
  list, the last of them has the greatest timestamp, and \<open>value_at\<close> gives its value.
\<close>

theorem value_at_latest_event:
  assumes "sorted (map time (events ch))"
  shows "(filter (\<lambda>e. time e \<le> t) (events ch) = [] \<longrightarrow> value_at ch t = ''X'')
       \<and> (filter (\<lambda>e. time e \<le> t) (events ch) \<noteq> [] \<longrightarrow>
            value_at ch t = val (last (filter (\<lambda>e. time e \<le> t) (events ch)))
            \<and> (\<forall>e\<in>set (events ch). time e \<le> t \<longrightarrow>
                  time e \<le> time (last (filter (\<lambda>e. time e \<le> t) (events ch)))))"
proof -
  let ?f = "filter (\<lambda>e. time e \<le> t) (events ch)"
  have tw: "takeWhile (\<lambda>e. time e \<le> t) (events ch) = ?f"
    using assms by (rule takeWhile_filter_sorted)
  have v: "value_at ch t = (if ?f = [] then ''X'' else val (last ?f))"
    using value_at_takeWhile [of ch t] by (simp only: tw)
  have s: "sorted (map time ?f)"
    using assms sorted_filter by blast
  have m: "time e \<le> time (last ?f)" if "e \<in> set ?f" for e
    using s that by (rule sorted_le_last)
  show ?thesis using v m by auto
qed

theorem value_at_latest_event_witness:
  "sorted (map time (events \<lparr>size_ch = 1, module = ''teste'', name = ''enable'',
      events = [\<lparr>time = 0, val = ''0''\<rparr>, \<lparr>time = 30, val = ''1''\<rparr>]\<rparr>))
   \<and> value_at \<lparr>size_ch = 1, module = ''teste'', name = ''enable'',
      events = [\<lparr>time = 0, val = ''0''\<rparr>, \<lparr>time = 30, val = ''1''\<rparr>]\<rparr> 12 = ''0''
   \<and> value_at \<lparr>size_ch = 1, module = ''teste'', name = ''enable'',
      events = [\<lparr>time = 0, val = ''0''\<rparr>, \<lparr>time = 30, val = ''1''\<rparr>]\<rparr> (-1) = ''X''"
  using value_at_latest_event [of "\<lparr>size_ch = 1, module = ''teste'', name = ''enable'',
      events = [\<lparr>time = 0, val = ''0''\<rparr>, \<lparr>time = 30, val = ''1''\<rparr>]\<rparr>" 12]
    value_at_latest_event [of "\<lparr>size_ch = 1, module = ''teste'', name = ''enable'',
      events = [\<lparr>time = 0, val = ''0''\<rparr>, \<lparr>time = 30, val = ''1''\<rparr>]\<rparr>" "-1"]
  by simp

text \<open>
  C7, counterexample. Without the order the claim fails: with the events \<open>(10, 1)\<close>, \<open>(0, 0)\<close> in this order,
  the only event up to time 5 is \<open>(0, 0)\<close>, and \<open>value_at 5\<close> is \<open>X\<close>.
\<close>

theorem value_at_unsorted_counterexample:
  "value_at \<lparr>size_ch = 1, module = ''m'', name = ''a'',
      events = [\<lparr>time = 10, val = ''1''\<rparr>, \<lparr>time = 0, val = ''0''\<rparr>]\<rparr> 5 = ''X''
   \<and> value_at \<lparr>size_ch = 1, module = ''m'', name = ''a'',
      events = [\<lparr>time = 10, val = ''1''\<rparr>, \<lparr>time = 0, val = ''0''\<rparr>]\<rparr> 5 \<noteq> ''0''"
  by code_simp

section \<open>Facts about the dictionaries and the token loops\<close>

lemma dict_keys_simps [simp]:
  "dict_keys [] = []"
  "dict_keys ((k, v) # d) = k # dict_keys d"
  by (simp_all add: dict_keys_def)

lemma dict_keys_set_old:
  "k \<in> set (dict_keys d) \<Longrightarrow> dict_keys (dict_set d k v) = dict_keys d"
  by (induction d) auto

lemma dict_keys_set_new:
  "k \<notin> set (dict_keys d) \<Longrightarrow> dict_keys (dict_set d k v) = dict_keys d @ [k]"
  by (induction d) auto

lemma dict_keys_set:
  "dict_keys (dict_set d k v) = (if k \<in> set (dict_keys d) then dict_keys d else dict_keys d @ [k])"
  by (simp add: dict_keys_set_old dict_keys_set_new)

lemma dict_keys_modify [simp]: "dict_keys (dict_modify d k f) = dict_keys d"
  by (induction d) auto

lemma distinct_dict_set: "distinct (dict_keys d) \<Longrightarrow> distinct (dict_keys (dict_set d k v))"
  by (simp add: dict_keys_set)

lemma map_of_dict_set: "map_of (dict_set d k v) = (map_of d)(k \<mapsto> v)"
  by (induction d) (auto simp: fun_eq_iff)

lemma map_of_dict_modify:
  "map_of (dict_modify d k f) k' =
     (if k' = k then map_option f (map_of d k) else map_of d k')"
  by (induction d) auto

lemma run_steps_append:
  "run_steps step s (xs @ ys) =
     (case run_steps step s xs of Inl e \<Rightarrow> Inl e | Inr s' \<Rightarrow> run_steps step s' ys)"
  by (induction xs arbitrary: s) (auto split: sum.splits)

lemma time_changes_step_simps [simp]:
  "time_changes_step (acc, now) (TChangeScalar c) =
     (case now of None \<Rightarrow> Inl UnboundLocalError
      | Some t \<Rightarrow> if t \<in> set (dict_keys acc)
                  then Inr (dict_modify acc t (\<lambda>cs. cs @ [c]), now) else Inl KeyError)"
  "time_changes_step (acc, now) (TChangeVector c) =
     (case now of None \<Rightarrow> Inl UnboundLocalError
      | Some t \<Rightarrow> if t \<in> set (dict_keys acc)
                  then Inr (dict_modify acc t (\<lambda>cs. cs @ [c]), now) else Inl KeyError)"
  "time_changes_step (acc, now) (TChangeReal c) = Inr (acc, now)"
  "time_changes_step (acc, now) (TChangeString c) = Inr (acc, now)"
  "time_changes_step (acc, now) (TScope s) = Inr (acc, now)"
  "time_changes_step (acc, now) (TVar d) = Inr (acc, now)"
  "time_changes_step (acc, now) (TDate s) = Inr (acc, now)"
  "time_changes_step (acc, now) (TTimescale s) = Inr (acc, now)"
  "time_changes_step (acc, now) TOther = Inr (acc, now)"
  by (simp_all add: is_change_kind_def split: option.splits)

declare time_changes_step.simps(2-) [simp del]

lemma run_time_changes_lookup:
  assumes "run_steps time_changes_step (acc, now) toks = Inr (acc', now')"
      and "TChangeTime t \<notin> set toks"
      and "map_of acc t = Some cs"
  shows "map_of acc' t =
           Some (cs @ (if now = Some t then recorded (takeWhile (\<lambda>tok. \<not> is_marker tok) toks) else []))"
  using assms
proof (induction toks arbitrary: acc now cs)
  case Nil
  then show ?case by simp
next
  case (Cons tok toks)
  show ?case
  proof (cases tok)
    case (TChangeTime t')
    with Cons.prems have ne: "t' \<noteq> t" by auto
    from Cons.prems TChangeTime
    have run: "run_steps time_changes_step (dict_set acc t' [], Some t') toks = Inr (acc', now')"
      by simp
    have "map_of (dict_set acc t' []) t = Some cs"
      using ne Cons.prems(3) by (simp add: map_of_dict_set)
    from Cons.IH [OF run _ this] Cons.prems(2) ne
    show ?thesis using TChangeTime by (simp add: is_marker_def)
  next
    case (TChangeScalar c)
    with Cons.prems obtain u where u: "now = Some u" "u \<in> set (dict_keys acc)"
      and run: "run_steps time_changes_step (dict_modify acc u (\<lambda>cs. cs @ [c]), now) toks = Inr (acc', now')"
      by (auto split: option.splits if_splits)
    have "map_of (dict_modify acc u (\<lambda>cs. cs @ [c])) t = Some (if u = t then cs @ [c] else cs)"
      using Cons.prems(3) by (auto simp: map_of_dict_modify)
    from Cons.IH [OF run _ this] Cons.prems(2) u
    show ?thesis using TChangeScalar by (auto simp: is_marker_def)
  next
    case (TChangeVector c)
    with Cons.prems obtain u where u: "now = Some u" "u \<in> set (dict_keys acc)"
      and run: "run_steps time_changes_step (dict_modify acc u (\<lambda>cs. cs @ [c]), now) toks = Inr (acc', now')"
      by (auto split: option.splits if_splits)
    have "map_of (dict_modify acc u (\<lambda>cs. cs @ [c])) t = Some (if u = t then cs @ [c] else cs)"
      using Cons.prems(3) by (auto simp: map_of_dict_modify)
    from Cons.IH [OF run _ this] Cons.prems(2) u
    show ?thesis using TChangeVector by (auto simp: is_marker_def)
  qed (use Cons in \<open>auto simp: is_marker_def\<close>)
qed

lemma run_steps_invariant:
  assumes "\<And>s tok s'. step s tok = Inr s' \<Longrightarrow> P s \<Longrightarrow> P s'"
      and "run_steps step s toks = Inr s'" and "P s"
  shows "P s'"
  using assms(2,3)
proof (induction toks arbitrary: s)
  case Nil
  then show ?case by simp
next
  case (Cons tok toks)
  then show ?case by (auto split: sum.splits dest: assms(1))
qed

lemma time_changes_step_distinct:
  "time_changes_step s tok = Inr s' \<Longrightarrow> distinct (dict_keys (fst s)) \<Longrightarrow> distinct (dict_keys (fst s'))"
  by (cases s; cases tok) (auto simp: dict_keys_set split: option.splits if_splits)

lemma time_changes_distinct:
  assumes "time_changes tokens = Inr tc"
  shows "distinct (dict_keys tc)"
proof -
  from assms obtain now where run: "run_steps time_changes_step ([], None) tokens = Inr (tc, now)"
    by (auto simp: time_changes_def split: sum.splits)
  have "distinct (dict_keys (fst (tc, now)))"
    by (rule run_steps_invariant [where P = "\<lambda>s. distinct (dict_keys (fst s))", OF _ run])
       (auto dest: time_changes_step_distinct)
  then show ?thesis by simp
qed

lemma touches_simps [simp]:
  "touches vars [] = False"
  "touches vars (c # cs) \<longleftrightarrow> (\<exists>v\<in>set vars. change_id c = id_code v) \<or> touches vars cs"
  by (auto simp: touches_def)

lemma apply_change_flag:
  "apply_change c vars (value, hc) = Inr (value', hc') \<Longrightarrow>
   hc' \<longleftrightarrow> hc \<or> (\<exists>v\<in>set vars. change_id c = id_code v)"
  by (induction vars arbitrary: "value" hc) (auto split: if_splits sum.splits)

lemma apply_changes_flag:
  "apply_changes cs vars (value, hc) = Inr (value', hc') \<Longrightarrow>
   hc' \<longleftrightarrow> hc \<or> touches vars cs"
proof (induction cs arbitrary: "value" hc)
  case Nil
  then show ?case by simp
next
  case (Cons c cs)
  then obtain v1 h1 where 1: "apply_change c vars (value, hc) = Inr (v1, h1)"
    and 2: "apply_changes cs vars (v1, h1) = Inr (value', hc')"
    by (auto split: sum.splits)
  from apply_change_flag [OF 1] Cons.IH [OF 2] show ?case by auto
qed

lemma events_loop_times:
  "events_loop tc vars value acc = Inr evs \<Longrightarrow>
   map time evs = map time acc @ map fst (filter (\<lambda>(t, cs). touches vars cs) tc)"
proof (induction tc arbitrary: "value" acc)
  case Nil
  then show ?case by simp
next
  case (Cons p tc)
  obtain t cs where p: "p = (t, cs)" by (cases p)
  from Cons.prems p obtain v1 h1 where
    1: "apply_changes cs vars (value, False) = Inr (v1, h1)"
    by (auto split: sum.splits)
  have h1: "h1 \<longleftrightarrow> touches vars cs"
    using apply_changes_flag [OF 1] by simp
  show ?case
  proof (cases h1)
    case True
    with Cons.prems p 1 obtain s where
      "events_loop tc vars v1 (acc @ [\<lparr>time = t, val = s\<rparr>]) = Inr evs"
      by (auto split: sum.splits)
    from Cons.IH [OF this] True h1 p show ?thesis by simp
  next
    case False
    with Cons.prems p 1 have "events_loop tc vars v1 acc = Inr evs"
      by simp
    from Cons.IH [OF this] False h1 p show ?thesis by simp
  qed
qed

lemma set_insert_desc [simp]: "set (insert_desc x ys) = insert x (set ys)"
  by (induction ys) auto

lemma set_foldr_insert_desc [simp]: "set (foldr insert_desc vs []) = set vs"
  by (induction vs) auto

lemma sorted_desc_set: "sorted_desc vs = Inr vs' \<Longrightarrow> set vs' = set vs"
  by (auto simp: sorted_desc_def split: if_splits)

lemma to_events_times:
  assumes "time_changes tokens = Inr tc" and "to_events tokens vars = Inr evs"
  shows "map time evs = map fst (filter (\<lambda>(t, cs). touches (dict_values vars) cs) tc)"
proof -
  from assms obtain vars' where
    s: "sorted_desc (dict_values vars) = Inr vars'"
    and l: "events_loop tc vars' (replicate (length vars) (StrV ''X'')) [] = Inr evs"
    by (auto simp: to_events_def Let_def split: sum.splits)
  have "touches vars' = touches (dict_values vars)"
    using sorted_desc_set [OF s] by (simp add: touches_def fun_eq_iff)
  with events_loop_times [OF l] show ?thesis by simp
qed

lemma bit_buffer_replicate: "bit_buffer n (replicate n (StrV ''X''))"
  by (auto simp: bit_buffer_def)

lemma bit_buffer_store:
  assumes "bit_buffer n value" and "bit_index var = Idx i" and "0 \<le> i" and "i < int n"
  shows "\<exists>value'. store_bit value var (StrV [c]) = Inr value' \<and> bit_buffer n value'"
  using assms
  by (auto simp: store_bit_def list_assign_def bit_buffer_def dest!: set_update_subset_insert [THEN subsetD])

lemma bit_buffer_apply_change:
  assumes "bit_buffer n value"
      and "\<forall>v\<in>set vars. \<exists>i. bit_index v = Idx i \<and> 0 \<le> i \<and> i < int n"
      and "(\<exists>v\<in>set vars. change_id c = id_code v) \<longrightarrow> (\<exists>x. change_value c = StrV [x])"
  shows "\<exists>value' hc'. apply_change c vars (value, hc) = Inr (value', hc') \<and> bit_buffer n value'"
  using assms
proof (induction vars arbitrary: "value" hc)
  case Nil
  then show ?case by simp
next
  case (Cons var vars)
  show ?case
  proof (cases "change_id c = id_code var")
    case True
    with Cons.prems(3) obtain x where x: "change_value c = StrV [x]" by auto
    from Cons.prems(2) obtain i where "bit_index var = Idx i" "0 \<le> i" "i < int n"
      by auto
    from bit_buffer_store [OF Cons.prems(1) this, of x] obtain value' where
      s: "store_bit value var (StrV [x]) = Inr value'" and b: "bit_buffer n value'"
      by blast
    from Cons.IH [OF b, of True] Cons.prems(2) x
    obtain value'' hc' where "apply_change c vars (value', True) = Inr (value'', hc')"
      and "bit_buffer n value''"
      by auto
    with True s x show ?thesis by simp
  next
    case False
    from Cons.IH [OF Cons.prems(1), of hc] Cons.prems(2,3) False
    show ?thesis by auto
  qed
qed

lemma bit_buffer_apply_changes:
  assumes "bit_buffer n value"
      and "\<forall>v\<in>set vars. \<exists>i. bit_index v = Idx i \<and> 0 \<le> i \<and> i < int n"
      and "\<forall>c\<in>set cs. (\<exists>v\<in>set vars. change_id c = id_code v) \<longrightarrow> (\<exists>x. change_value c = StrV [x])"
  shows "\<exists>value' hc'. apply_changes cs vars (value, hc) = Inr (value', hc') \<and> bit_buffer n value'"
  using assms
proof (induction cs arbitrary: "value" hc)
  case Nil
  then show ?case by simp
next
  case (Cons c cs)
  from bit_buffer_apply_change [OF Cons.prems(1,2), of c hc] Cons.prems(3)
  obtain v1 h1 where 1: "apply_change c vars (value, hc) = Inr (v1, h1)" and b: "bit_buffer n v1"
    by auto
  from Cons.IH [OF b Cons.prems(2), of h1] Cons.prems(3)
  obtain v2 h2 where "apply_changes cs vars (v1, h1) = Inr (v2, h2)" and "bit_buffer n v2"
    by auto
  with 1 show ?case by simp
qed

lemma bit_buffer_join:
  "bit_buffer n value \<Longrightarrow> \<exists>s. join_values value = Inr s \<and> length s = n"
proof (induction "value" arbitrary: n)
  case Nil
  then show ?case by (simp add: bit_buffer_def)
next
  case (Cons x xs)
  from Cons.prems obtain c where x: "x = StrV [c]" and b: "bit_buffer (length xs) xs"
    and n: "n = Suc (length xs)"
    by (auto simp: bit_buffer_def)
  from Cons.IH [OF b] obtain s where "join_values xs = Inr s" "length s = length xs"
    by blast
  with x n show ?case by simp
qed

lemma bit_buffer_events_loop:
  assumes "bit_buffer n value"
      and "\<forall>v\<in>set vars. \<exists>i. bit_index v = Idx i \<and> 0 \<le> i \<and> i < int n"
      and "\<forall>(t, cs)\<in>set tc. \<forall>c\<in>set cs.
             (\<exists>v\<in>set vars. change_id c = id_code v) \<longrightarrow> (\<exists>x. change_value c = StrV [x])"
      and "\<forall>e\<in>set acc. length (val e) = n"
  shows "\<exists>evs. events_loop tc vars value acc = Inr evs \<and> (\<forall>e\<in>set evs. length (val e) = n)"
  using assms
proof (induction tc arbitrary: "value" acc)
  case Nil
  then show ?case by simp
next
  case (Cons p tc)
  obtain t cs where p: "p = (t, cs)" by (cases p)
  from Cons.prems(3) p have cs:
    "\<forall>c\<in>set cs. (\<exists>v\<in>set vars. change_id c = id_code v) \<longrightarrow> (\<exists>x. change_value c = StrV [x])"
    and rest: "\<forall>(t, cs)\<in>set tc. \<forall>c\<in>set cs.
             (\<exists>v\<in>set vars. change_id c = id_code v) \<longrightarrow> (\<exists>x. change_value c = StrV [x])"
    by auto
  from bit_buffer_apply_changes [OF Cons.prems(1,2) cs, of False]
  obtain v1 h1 where 1: "apply_changes cs vars (value, False) = Inr (v1, h1)"
    and b: "bit_buffer n v1"
    by blast
  from bit_buffer_join [OF b] obtain s where s: "join_values v1 = Inr s" "length s = n"
    by blast
  show ?case
  proof (cases h1)
    case True
    have "\<forall>e\<in>set (acc @ [\<lparr>time = t, val = s\<rparr>]). length (val e) = n"
      using Cons.prems(4) s by simp
    from Cons.IH [OF b Cons.prems(2) rest this] p 1 s True show ?thesis by simp
  next
    case False
    from Cons.IH [OF b Cons.prems(2) rest Cons.prems(4)] p 1 False show ?thesis by simp
  qed
qed

lemma run_time_changes_keys:
  assumes "run_steps time_changes_step (acc, now) toks = Inr (acc', now')"
      and "sorted_wrt (<) (dict_keys acc @ timestamps toks)"
  shows "dict_keys acc' = dict_keys acc @ timestamps toks"
  using assms
proof (induction toks arbitrary: acc now)
  case Nil
  then show ?case by simp
next
  case (Cons tok toks)
  show ?case
  proof (cases tok)
    case (TChangeTime t)
    from Cons.prems(2) TChangeTime have new: "t \<notin> set (dict_keys acc)"
      by (auto simp: sorted_wrt_append)
    from Cons.prems(1) TChangeTime
    have run: "run_steps time_changes_step (dict_set acc t [], Some t) toks = Inr (acc', now')"
      by simp
    have "sorted_wrt (<) (dict_keys (dict_set acc t []) @ timestamps toks)"
      using Cons.prems(2) TChangeTime new by (simp add: dict_keys_set_new)
    from Cons.IH [OF run this] new TChangeTime show ?thesis
      by (simp add: dict_keys_set_new)
  next
    case (TChangeScalar c)
    with Cons.prems obtain u where
      run: "run_steps time_changes_step (dict_modify acc u (\<lambda>cs. cs @ [c]), now) toks = Inr (acc', now')"
      by (auto split: option.splits if_splits)
    from Cons.IH [OF run] Cons.prems(2) TChangeScalar show ?thesis by simp
  next
    case (TChangeVector c)
    with Cons.prems obtain u where
      run: "run_steps time_changes_step (dict_modify acc u (\<lambda>cs. cs @ [c]), now) toks = Inr (acc', now')"
      by (auto split: option.splits if_splits)
    from Cons.IH [OF run] Cons.prems(2) TChangeVector show ?thesis by simp
  qed (use Cons in auto)
qed

lemma time_changes_keys_sorted:
  assumes "time_changes tokens = Inr tc" and "sorted_wrt (<) (timestamps tokens)"
  shows "sorted_wrt (<) (map fst tc)"
proof -
  from assms(1) obtain now where
    run: "run_steps time_changes_step ([], None) tokens = Inr (tc, now)"
    by (auto simp: time_changes_def split: sum.splits)
  from run_time_changes_keys [OF run] assms(2) show ?thesis
    by (simp add: dict_keys_def)
qed

lemma to_events_sorted:
  assumes "to_events tokens vars = Inr evs" and "sorted_wrt (<) (timestamps tokens)"
  shows "sorted_wrt (<) (map time evs)"
proof -
  from assms(1) obtain tc where tc: "time_changes tokens = Inr tc"
    by (auto simp: to_events_def Let_def split: sum.splits)
  have "sorted_wrt (\<lambda>p q. fst p < fst q) tc"
    using time_changes_keys_sorted [OF tc assms(2)] by (simp add: sorted_wrt_map)
  then have "sorted_wrt (\<lambda>p q. fst p < fst q)
               (filter (\<lambda>(t, cs). touches (dict_values vars) cs) tc)"
    by (rule sorted_wrt_filter)
  then show ?thesis
    unfolding to_events_times [OF tc assms(1)] by (simp add: sorted_wrt_map)
qed

lemma channels_loop_sound:
  assumes "channels_loop tokens m chans acc = Inr res" and "ch \<in> set res"
  shows "ch \<in> set acc
         \<or> (\<exists>vars. (name ch, vars) \<in> set chans \<and> module ch = m
                \<and> size_ch ch = int (length vars) \<and> to_events tokens vars = Inr (events ch))"
  using assms
proof (induction chans arbitrary: acc)
  case Nil
  then show ?case by simp
next
  case (Cons p chans)
  obtain n vars where p: "p = (n, vars)" by (cases p)
  from Cons.prems(1) p obtain evs where e: "to_events tokens vars = Inr evs"
    and l: "channels_loop tokens m chans
              (acc @ [\<lparr>size_ch = int (length vars), module = m, name = n, events = evs\<rparr>]) = Inr res"
    by (auto split: sum.splits)
  from Cons.IH [OF l Cons.prems(2)] e p show ?case by auto
qed

lemma modules_loop_sound:
  assumes "modules_loop tokens index acc = Inr res" and "ch \<in> set res"
  shows "ch \<in> set acc
         \<or> (\<exists>chans vars. (module ch, chans) \<in> set index \<and> (name ch, vars) \<in> set chans
                \<and> size_ch ch = int (length vars) \<and> to_events tokens vars = Inr (events ch))"
  using assms
proof (induction index arbitrary: acc)
  case Nil
  then show ?case by simp
next
  case (Cons p index)
  obtain m chans where p: "p = (m, chans)" by (cases p)
  from Cons.prems(1) p obtain acc' where c: "channels_loop tokens m chans acc = Inr acc'"
    and l: "modules_loop tokens index acc' = Inr res"
    by (auto split: sum.splits)
  from Cons.IH [OF l Cons.prems(2)] channels_loop_sound [OF c, of ch] p show ?case
    by auto
qed

lemma to_channel_sound:
  assumes "to_channel tokens = Inr chans" and "ch \<in> set chans"
  shows "\<exists>index group vars. scope_vars tokens = Inr index
           \<and> (module ch, group) \<in> set index \<and> (name ch, vars) \<in> set group
           \<and> size_ch ch = int (length vars) \<and> to_events tokens vars = Inr (events ch)"
proof -
  from assms(1) obtain index where i: "scope_vars tokens = Inr index"
    and l: "modules_loop tokens index [] = Inr chans"
    by (auto simp: to_channel_def split: sum.splits)
  from modules_loop_sound [OF l assms(2)] i show ?thesis by auto
qed

lemma without_id_simps [simp]:
  "without_id i [] = []"
  "without_id i ((t, cs) # tc) = (t, filter (\<lambda>x. change_id x \<noteq> i) cs) # without_id i tc"
  by (simp_all add: without_id_def)

lemma dict_keys_without_id [simp]: "dict_keys (without_id i tc) = dict_keys tc"
  by (induction tc) auto

lemma without_id_dict_set:
  "without_id i (dict_set tc t []) = dict_set (without_id i tc) t []"
  by (induction tc) auto

lemma without_id_dict_modify:
  "without_id i (dict_modify tc t (\<lambda>cs. cs @ [x]))
     = dict_modify (without_id i tc) t (\<lambda>cs. cs @ filter (\<lambda>x. change_id x \<noteq> i) [x])"
  by (induction tc) auto

lemma dict_modify_id [simp]: "dict_modify d k (\<lambda>v. v) = d"
  by (induction d) auto

lemma without_id_keys_eq:
  "without_id i a1 = without_id i a2 \<Longrightarrow> dict_keys a1 = dict_keys a2"
  by (metis dict_keys_without_id)

lemma time_changes_step_sim:
  assumes "without_id i a1 = without_id i a2"
  shows "rel_sum (=) (\<lambda>s1 s2. snd s1 = snd s2 \<and> without_id i (fst s1) = without_id i (fst s2))
           (time_changes_step (a1, now) tok) (time_changes_step (a2, now) tok)"
proof -
  have k: "dict_keys a1 = dict_keys a2" using assms by (rule without_id_keys_eq)
  show ?thesis
    by (cases tok)
      (auto simp: assms k without_id_dict_set without_id_dict_modify split: option.splits)
qed

lemma run_time_changes_sim:
  assumes "without_id i a1 = without_id i a2"
  shows "rel_sum (=) (\<lambda>s1 s2. snd s1 = snd s2 \<and> without_id i (fst s1) = without_id i (fst s2))
           (run_steps time_changes_step (a1, now) toks)
           (run_steps time_changes_step (a2, now) toks)"
  using assms
proof (induction toks arbitrary: a1 a2 now)
  case Nil
  then show ?case by simp
next
  case (Cons tok toks)
  note sim = time_changes_step_sim [OF Cons.prems, of now tok]
  show ?case
  proof (cases "time_changes_step (a1, now) tok")
    case (Inl e1)
    with sim show ?thesis
      by (cases "time_changes_step (a2, now) tok") auto
  next
    case (Inr s1)
    with sim obtain s2 where s2: "time_changes_step (a2, now) tok = Inr s2"
      and r: "snd s1 = snd s2" "without_id i (fst s1) = without_id i (fst s2)"
      by (cases "time_changes_step (a2, now) tok") auto
    from Cons.IH [OF r(2), of "snd s1"] r(1) Inr s2 show ?thesis
      by (cases s1; cases s2) simp
  qed
qed

lemma time_changes_step_bound:
  assumes "time_changes_step (acc, now) tok = Inr (acc', now')"
      and "\<forall>t. now = Some t \<longrightarrow> t \<in> set (dict_keys acc)"
  shows "(\<forall>t. now' = Some t \<longrightarrow> t \<in> set (dict_keys acc'))
         \<and> (now \<noteq> None \<or> (\<exists>t. tok = TChangeTime t) \<longrightarrow> now' \<noteq> None)"
  using assms
  by (cases tok) (auto simp: dict_keys_set split: option.splits if_splits)

lemma run_time_changes_bound:
  assumes "run_steps time_changes_step (acc, now) toks = Inr (acc', now')"
      and "\<forall>t. now = Some t \<longrightarrow> t \<in> set (dict_keys acc)"
      and "now \<noteq> None \<or> (\<exists>t. TChangeTime t \<in> set toks)"
  shows "\<exists>t. now' = Some t \<and> t \<in> set (dict_keys acc')"
  using assms
proof (induction toks arbitrary: acc now)
  case Nil
  then show ?case by auto
next
  case (Cons tok toks)
  from Cons.prems(1) obtain a1 n1 where
    1: "time_changes_step (acc, now) tok = Inr (a1, n1)"
    and 2: "run_steps time_changes_step (a1, n1) toks = Inr (acc', now')"
    by (auto split: sum.splits)
  from time_changes_step_bound [OF 1 Cons.prems(2)]
  have b: "\<forall>t. n1 = Some t \<longrightarrow> t \<in> set (dict_keys a1)"
    and n: "now \<noteq> None \<or> (\<exists>t. tok = TChangeTime t) \<longrightarrow> n1 \<noteq> None"
    by auto
  from n Cons.prems(3) have "n1 \<noteq> None \<or> (\<exists>t. TChangeTime t \<in> set toks)" by auto
  from Cons.IH [OF 2 b this] show ?case .
qed

lemma time_changes_insert_sim:
  assumes "is_change c tok" and "TChangeTime t \<in> set pre"
  shows "rel_sum (=) (\<lambda>tc1 tc2. without_id (change_id c) tc1 = without_id (change_id c) tc2)
           (time_changes (pre @ tok # post)) (time_changes (pre @ post))"
proof (cases "run_steps time_changes_step ([], None) pre")
  case (Inl e)
  then show ?thesis by (simp add: time_changes_def run_steps_append)
next
  case (Inr s0)
  obtain acc0 now0 where s0: "s0 = (acc0, now0)" by (cases s0)
  from run_time_changes_bound [of "[]" None pre acc0 now0] Inr s0 assms(2)
  obtain u where u: "now0 = Some u" "u \<in> set (dict_keys acc0)" by auto
  let ?i = "change_id c"
  obtain acc1 where step: "time_changes_step (acc0, now0) tok = Inr (acc1, now0)"
    and sim: "without_id ?i acc1 = without_id ?i acc0"
    using assms(1) u
    by (auto simp: is_change_def without_id_dict_modify)
  from run_time_changes_sim [OF sim, of now0 post]
  show ?thesis
    by (cases "run_steps time_changes_step (acc1, now0) post";
        cases "run_steps time_changes_step (acc0, now0) post")
       (auto simp: time_changes_def run_steps_append Inr s0 step)
qed

lemma apply_change_no_sibling:
  "\<forall>v\<in>set vars. id_code v \<noteq> change_id x \<Longrightarrow> apply_change x vars st = Inr st"
  by (induction vars) (cases st, auto)+

lemma apply_changes_without_id:
  assumes "\<forall>v\<in>set vars. id_code v \<noteq> i"
  shows "apply_changes (filter (\<lambda>x. change_id x \<noteq> i) cs) vars st = apply_changes cs vars st"
proof (induction cs arbitrary: st)
  case Nil
  show ?case by simp
next
  case (Cons x cs)
  show ?case
  proof (cases "change_id x = i")
    case True
    with assms have "apply_change x vars st = Inr st"
      by (intro apply_change_no_sibling) simp
    with True Cons.IH show ?thesis by simp
  next
    case False
    with Cons.IH show ?thesis by (simp split: sum.splits)
  qed
qed

lemma events_loop_without_id:
  assumes "\<forall>v\<in>set vars. id_code v \<noteq> i"
  shows "events_loop (without_id i tc) vars value acc = events_loop tc vars value acc"
proof (induction tc arbitrary: "value" acc)
  case Nil
  show ?case by simp
next
  case (Cons p tc)
  obtain t cs where p: "p = (t, cs)" by (cases p)
  show ?case
    unfolding p
    by (simp add: apply_changes_without_id [OF assms] Cons.IH split: sum.splits prod.splits)
qed

lemma to_events_insert:
  assumes "is_change c tok" and "TChangeTime t \<in> set pre"
      and "\<forall>v\<in>set (dict_values vars). id_code v \<noteq> change_id c"
  shows "to_events (pre @ tok # post) vars = to_events (pre @ post) vars"
proof (cases "sorted_desc (dict_values vars)")
  case (Inl e)
  then show ?thesis by (simp add: to_events_def)
next
  case (Inr vars')
  have ids: "\<forall>v\<in>set vars'. id_code v \<noteq> change_id c"
    using assms(3) sorted_desc_set [OF Inr] by simp
  note sim = time_changes_insert_sim [OF assms(1,2), of post]
  show ?thesis
  proof (cases "time_changes (pre @ tok # post)")
    case (Inl e)
    with sim show ?thesis
      by (cases "time_changes (pre @ post)") (auto simp: to_events_def Inr)
  next
    case tc1: (Inr tc1)
    with sim obtain tc2 where tc2: "time_changes (pre @ post) = Inr tc2"
      and eq: "without_id (change_id c) tc1 = without_id (change_id c) tc2"
      by (cases "time_changes (pre @ post)") auto
    have "events_loop tc1 vars' (replicate (length vars) (StrV ''X'')) []
            = events_loop tc2 vars' (replicate (length vars) (StrV ''X'')) []"
      using events_loop_without_id [OF ids, of tc1] events_loop_without_id [OF ids, of tc2] eq
      by simp
    then show ?thesis by (simp add: to_events_def Inr tc1 tc2)
  qed
qed

lemma channels_loop_cong:
  assumes "\<forall>(n, vars)\<in>set chans. to_events toks1 vars = to_events toks2 vars"
  shows "channels_loop toks1 m chans acc = channels_loop toks2 m chans acc"
  using assms
  by (induction chans arbitrary: acc) (auto split: sum.splits)

lemma modules_loop_cong:
  assumes "\<forall>(m, grp)\<in>set index. \<forall>(n, vars)\<in>set grp.
             to_events toks1 vars = to_events toks2 vars"
  shows "modules_loop toks1 index acc = modules_loop toks2 index acc"
  using assms
proof (induction index arbitrary: acc)
  case Nil
  show ?case by simp
next
  case (Cons p index)
  obtain m grp where p: "p = (m, grp)" by (cases p)
  from Cons.prems p have "channels_loop toks1 m grp acc = channels_loop toks2 m grp acc"
    by (intro channels_loop_cong) auto
  moreover from Cons.prems have "\<And>acc'. modules_loop toks1 index acc' = modules_loop toks2 index acc'"
    by (intro Cons.IH) auto
  ultimately show ?case using p by (simp split: sum.splits)
qed

lemma scope_vars_step_change: "is_change c tok \<Longrightarrow> scope_vars_step s tok = Inr s"
  by (cases s) (auto simp: is_change_def)

lemma scope_vars_insert:
  assumes "is_change c tok"
  shows "scope_vars (pre @ tok # post) = scope_vars (pre @ post)"
proof -
  have "run_steps scope_vars_step ([], None) (pre @ tok # post)
          = run_steps scope_vars_step ([], None) (pre @ post)"
    by (cases "run_steps scope_vars_step ([], None) pre")
       (simp_all add: run_steps_append scope_vars_step_change [OF assms])
  then show ?thesis by (simp add: scope_vars_def)
qed

lemma declarations_member:
  "(m, grp) \<in> set index \<Longrightarrow> (n, vars) \<in> set grp \<Longrightarrow> v \<in> set (dict_values vars)
   \<Longrightarrow> v \<in> set (declarations index)"
  by (force simp: declarations_def)

lemma dict_set_changes:
  "set (concat (map snd (dict_set acc t []))) \<subseteq> set (concat (map snd acc))"
proof (induction acc)
  case Nil
  show ?case by simp
next
  case (Cons p acc)
  obtain k v where p: "p = (k, v)" by (cases p)
  show ?case
  proof (cases "k = t")
    case True
    with p show ?thesis by simp
  next
    case False
    with p have "set (concat (map snd (dict_set (p # acc) t [])))
                   = set v \<union> set (concat (map snd (dict_set acc t [])))"
      by simp
    with Cons.IH p show ?thesis by auto
  qed
qed

lemma dict_modify_changes:
  "set (concat (map snd (dict_modify acc t (\<lambda>cs. cs @ [x]))))
     \<subseteq> insert x (set (concat (map snd acc)))"
proof (induction acc)
  case Nil
  show ?case by simp
next
  case (Cons p acc)
  obtain k v where p: "p = (k, v)" by (cases p)
  show ?case
  proof (cases "k = t")
    case True
    with p show ?thesis by auto
  next
    case False
    with p have "set (concat (map snd (dict_modify (p # acc) t (\<lambda>cs. cs @ [x]))))
                   = set v \<union> set (concat (map snd (dict_modify acc t (\<lambda>cs. cs @ [x]))))"
      by simp
    with Cons.IH p show ?thesis by auto
  qed
qed

lemma time_changes_step_recorded:
  assumes "time_changes_step (acc, now) tok = Inr (acc', now')"
  shows "set (concat (map snd acc')) \<subseteq> set (concat (map snd acc)) \<union> set (recorded [tok])"
proof (cases tok)
  case (TChangeTime t)
  with assms dict_set_changes [of acc t] show ?thesis by auto
next
  case (TChangeScalar c)
  with assms obtain u where "acc' = dict_modify acc u (\<lambda>cs. cs @ [c])"
    by (auto split: option.splits if_splits)
  with TChangeScalar dict_modify_changes [of acc u c] show ?thesis by auto
next
  case (TChangeVector c)
  with assms obtain u where "acc' = dict_modify acc u (\<lambda>cs. cs @ [c])"
    by (auto split: option.splits if_splits)
  with TChangeVector dict_modify_changes [of acc u c] show ?thesis by auto
qed (use assms in auto)

lemma recorded_Cons: "set (recorded (tok # toks)) = set (recorded [tok]) \<union> set (recorded toks)"
  by (cases tok) auto

lemma run_time_changes_recorded:
  assumes "run_steps time_changes_step (acc, now) toks = Inr (acc', now')"
  shows "set (concat (map snd acc')) \<subseteq> set (concat (map snd acc)) \<union> set (recorded toks)"
  using assms
proof (induction toks arbitrary: acc now)
  case Nil
  then show ?case by simp
next
  case (Cons tok toks)
  from Cons.prems obtain a1 n1 where
    1: "time_changes_step (acc, now) tok = Inr (a1, n1)"
    and 2: "run_steps time_changes_step (a1, n1) toks = Inr (acc', now')"
    by (auto split: sum.splits)
  from Cons.IH [OF 2] time_changes_step_recorded [OF 1] show ?case
    unfolding recorded_Cons [of tok toks] by blast
qed

lemma time_changes_recorded:
  assumes "time_changes tokens = Inr tc" and "(t, cs) \<in> set tc" and "c \<in> set cs"
  shows "c \<in> set (recorded tokens)"
proof -
  from assms(1) obtain now where
    "run_steps time_changes_step ([], None) tokens = Inr (tc, now)"
    by (auto simp: time_changes_def split: sum.splits)
  from run_time_changes_recorded [OF this] have "set (concat (map snd tc)) \<subseteq> set (recorded tokens)"
    by simp
  moreover from assms(2,3) have "c \<in> set (concat (map snd tc))" by force
  ultimately show ?thesis by blast
qed

lemma to_events_bit_buffer:
  assumes "bit_index ` set (dict_values vars) = (\<lambda>i. Idx (int i)) ` {0..<length vars}"
      and "time_changes tokens = Inr tc"
      and "\<forall>(t, cs)\<in>set tc. \<forall>c\<in>set cs.
             (\<exists>v\<in>set (dict_values vars). change_id c = id_code v)
             \<longrightarrow> (\<exists>x. change_value c = StrV [x])"
  shows "\<exists>evs. to_events tokens vars = Inr evs
               \<and> (\<forall>e\<in>set evs. length (val e) = length vars)"
proof -
  let ?n = "length vars"
  have idx: "\<forall>v\<in>set (dict_values vars). \<exists>i. bit_index v = Idx i \<and> 0 \<le> i \<and> i < int ?n"
  proof
    fix v assume "v \<in> set (dict_values vars)"
    then have "bit_index v \<in> (\<lambda>i. Idx (int i)) ` {0..<?n}"
      using assms(1) by blast
    then show "\<exists>i. bit_index v = Idx i \<and> 0 \<le> i \<and> i < int ?n" by auto
  qed
  then have "list_all (\<lambda>v. is_Idx (bit_index v)) (dict_values vars)"
    by (auto simp: list_all_iff)
  then obtain vars' where s: "sorted_desc (dict_values vars) = Inr vars'"
    by (simp add: sorted_desc_def)
  have set: "set vars' = set (dict_values vars)"
    using sorted_desc_set [OF s] .
  from bit_buffer_events_loop [of ?n "replicate ?n (StrV ''X'')" vars' tc "[]"]
    bit_buffer_replicate [of ?n] idx assms(3) set
  obtain evs where "events_loop tc vars' (replicate ?n (StrV ''X'')) [] = Inr evs"
    and "\<forall>e\<in>set evs. length (val e) = ?n"
    by auto
  with s assms(2) show ?thesis by (simp add: to_events_def)
qed


lemma to_events_raises_time_changes:
  assumes "bit_index ` set (dict_values vars) = (\<lambda>i. Idx (int i)) ` {0..<length vars}"
      and "time_changes tokens = Inl err"
  shows "to_events tokens vars = Inl err"
proof -
  have "list_all (\<lambda>v. is_Idx (bit_index v)) (dict_values vars)"
    unfolding list_all_iff
  proof
    fix v assume "v \<in> set (dict_values vars)"
    then have "bit_index v \<in> (\<lambda>i. Idx (int i)) ` {0..<length vars}"
      using assms(1) by blast
    then show "is_Idx (bit_index v)" by auto
  qed
  then obtain vars' where "sorted_desc (dict_values vars) = Inr vars'"
    by (simp add: sorted_desc_def)
  with assms(2) show ?thesis by (simp add: to_events_def)
qed

section \<open>Properties of the Timed Change Set\<close>

text \<open>
  C3. The claim: a change token of any of the four kinds that follows a timestamp marker
  is appended to the list of the current timestamp. The code appends scalar and vector
  changes only: after the marker \<open>#0\<close>, a real change and a string change leave the list of
  timestamp 0 empty.
\<close>

theorem real_and_string_changes_dropped:
  "time_changes [TChangeTime 0,
      TChangeReal \<lparr>change_id = ''!'', change_value = RealV 3 (-1)\<rparr>,
      TChangeString \<lparr>change_id = ''#'', change_value = StrV ''idle''\<rparr>] = Inr [(0, [])]"
  by code_simp

text \<open>
  C10. When a timestamp marker for \<open>t\<close> is followed by no other marker for \<open>t\<close>, the
  Timed Change Set maps \<open>t\<close> to exactly the changes recorded after that marker (the scalar
  and vector changes up to the next marker), whatever came before it: the changes recorded
  under an earlier marker for \<open>t\<close> are discarded, because each marker resets the list of its
  timestamp to the empty list.
\<close>

theorem repeated_marker_resets:
  assumes "time_changes (pre @ TChangeTime t # post) = Inr tc"
      and "TChangeTime t \<notin> set post"
  shows "(t, cs) \<in> set tc \<longleftrightarrow> cs = recorded (takeWhile (\<lambda>tok. \<not> is_marker tok) post)"
proof -
  from assms(1) obtain now where
    run: "run_steps time_changes_step ([], None) (pre @ TChangeTime t # post) = Inr (tc, now)"
    by (auto simp: time_changes_def split: sum.splits)
  then obtain acc0 now0 where
    post: "run_steps time_changes_step (dict_set acc0 t [], Some t) post = Inr (tc, now)"
    by (auto simp: run_steps_append split: sum.splits)
  have "map_of (dict_set acc0 t []) t = Some []"
    by (simp add: map_of_dict_set)
  from run_time_changes_lookup [OF post assms(2) this]
  have "map_of tc t = Some (recorded (takeWhile (\<lambda>tok. \<not> is_marker tok) post))"
    by simp
  moreover have "distinct (map fst tc)"
    using time_changes_distinct [OF assms(1)] by (simp add: dict_keys_def)
  then have "(t, cs) \<in> set tc \<longleftrightarrow> map_of tc t = Some cs"
    by simp
  ultimately show ?thesis by auto
qed

theorem repeated_marker_resets_witness:
  "time_changes ([TChangeTime 0, TChangeScalar \<lparr>change_id = ''!'', change_value = StrV ''1''\<rparr>,
                  TChangeTime 5, TChangeScalar \<lparr>change_id = ''#'', change_value = StrV ''0''\<rparr>]
        @ TChangeTime 0
        # [TChangeScalar \<lparr>change_id = ''#'', change_value = StrV ''1''\<rparr>,
           TChangeTime 7, TChangeScalar \<lparr>change_id = ''!'', change_value = StrV ''0''\<rparr>])
     = Inr [(0, [\<lparr>change_id = ''#'', change_value = StrV ''1''\<rparr>]),
            (5, [\<lparr>change_id = ''#'', change_value = StrV ''0''\<rparr>]),
            (7, [\<lparr>change_id = ''!'', change_value = StrV ''0''\<rparr>])]
   \<and> TChangeTime 0 \<notin> set [TChangeScalar \<lparr>change_id = ''#'', change_value = StrV ''1''\<rparr>,
           TChangeTime 7, TChangeScalar \<lparr>change_id = ''!'', change_value = StrV ''0''\<rparr>]
   \<and> (0, [\<lparr>change_id = ''#'', change_value = StrV ''1''\<rparr>])
       \<in> set [(0, [\<lparr>change_id = ''#'', change_value = StrV ''1''\<rparr>]),
            (5, [\<lparr>change_id = ''#'', change_value = StrV ''0''\<rparr>]),
            (7, [\<lparr>change_id = ''!'', change_value = StrV ''0''\<rparr>])]"
  using repeated_marker_resets
    [of "[TChangeTime 0, TChangeScalar \<lparr>change_id = ''!'', change_value = StrV ''1''\<rparr>,
          TChangeTime 5, TChangeScalar \<lparr>change_id = ''#'', change_value = StrV ''0''\<rparr>]"
        0
        "[TChangeScalar \<lparr>change_id = ''#'', change_value = StrV ''1''\<rparr>,
          TChangeTime 7, TChangeScalar \<lparr>change_id = ''!'', change_value = StrV ''0''\<rparr>]"
        "[(0, [\<lparr>change_id = ''#'', change_value = StrV ''1''\<rparr>]),
            (5, [\<lparr>change_id = ''#'', change_value = StrV ''0''\<rparr>]),
            (7, [\<lparr>change_id = ''!'', change_value = StrV ''0''\<rparr>])]"
        "[\<lparr>change_id = ''#'', change_value = StrV ''1''\<rparr>]"]
  by (simp add: time_changes_def)

section \<open>Properties of the Channel Reconstructor\<close>

text \<open>
  C6. For the events that \<open>to_events\<close> gives for a group of sibling declarations, and for
  every timestamp of the Timed Change Set: there is an event at that timestamp if and only
  if the id-code of one of the siblings appears in the change list of that timestamp.
\<close>

theorem event_iff_sibling_changed:
  assumes "time_changes tokens = Inr tc"
      and "to_events tokens vars = Inr evs"
      and "(t, cs) \<in> set tc"
  shows "(\<exists>e\<in>set evs. time e = t)
         \<longleftrightarrow> (\<exists>c\<in>set cs. \<exists>v\<in>set (dict_values vars). change_id c = id_code v)"
proof -
  have d: "distinct (map fst tc)"
    using time_changes_distinct [OF assms(1)] by (simp add: dict_keys_def)
  have "(\<exists>e\<in>set evs. time e = t) \<longleftrightarrow> t \<in> set (map time evs)"
    by auto
  also have "\<dots> \<longleftrightarrow> (\<exists>cs'. (t, cs') \<in> set tc \<and> touches (dict_values vars) cs')"
    unfolding to_events_times [OF assms(1,2)] by force
  also have "\<dots> \<longleftrightarrow> touches (dict_values vars) cs"
    using d assms(3) by (auto dest: eq_key_imp_eq_value)
  finally show ?thesis by (simp add: touches_def)
qed

theorem event_iff_sibling_changed_witness:
  "time_changes [TChangeTime 0, TChangeScalar \<lparr>change_id = ''!'', change_value = StrV ''1''\<rparr>,
                 TChangeTime 5, TChangeScalar \<lparr>change_id = ''#'', change_value = StrV ''0''\<rparr>]
     = Inr [(0, [\<lparr>change_id = ''!'', change_value = StrV ''1''\<rparr>]),
            (5, [\<lparr>change_id = ''#'', change_value = StrV ''0''\<rparr>])]
   \<and> to_events [TChangeTime 0, TChangeScalar \<lparr>change_id = ''!'', change_value = StrV ''1''\<rparr>,
                 TChangeTime 5, TChangeScalar \<lparr>change_id = ''#'', change_value = StrV ''0''\<rparr>]
        [(NoIndex, \<lparr>id_code = ''!'', reference = ''clk'', bit_index = NoIndex\<rparr>)]
     = Inr [\<lparr>time = 0, val = ''1''\<rparr>]
   \<and> (0, [\<lparr>change_id = ''!'', change_value = StrV ''1''\<rparr>])
       \<in> set [(0, [\<lparr>change_id = ''!'', change_value = StrV ''1''\<rparr>]),
                (5, [\<lparr>change_id = ''#'', change_value = StrV ''0''\<rparr>])]
   \<and> ((\<exists>e\<in>set [\<lparr>time = 0, val = ''1''\<rparr>]. time e = 0)
        \<longleftrightarrow> (\<exists>c\<in>set [\<lparr>change_id = ''!'', change_value = StrV ''1''\<rparr>].
             \<exists>v\<in>set (dict_values [(NoIndex, \<lparr>id_code = ''!'', reference = ''clk'', bit_index = NoIndex\<rparr>)]).
               change_id c = id_code v))"
  using event_iff_sibling_changed
    [of "[TChangeTime 0, TChangeScalar \<lparr>change_id = ''!'', change_value = StrV ''1''\<rparr>,
          TChangeTime 5, TChangeScalar \<lparr>change_id = ''#'', change_value = StrV ''0''\<rparr>]"
        "[(0, [\<lparr>change_id = ''!'', change_value = StrV ''1''\<rparr>]),
          (5, [\<lparr>change_id = ''#'', change_value = StrV ''0''\<rparr>])]"
        "[(NoIndex, \<lparr>id_code = ''!'', reference = ''clk'', bit_index = NoIndex\<rparr>)]"
        "[\<lparr>time = 0, val = ''1''\<rparr>]"
        0
        "[\<lparr>change_id = ''!'', change_value = StrV ''1''\<rparr>]"]
  by (simp add: time_changes_def to_events_def sorted_desc_def dict_values_def
        store_bit_def list_assign_def)

text \<open>
  C4 (Scenario E). The claim: for the two siblings with bit-index 1 and bit-index 0 and the
  buffer \<open>XX\<close>, a change of the bit-index 0 sibling to \<open>1\<close> at time 5 gives the one event
  \<open>(5, X1)\<close>. The code stores the value of bit-index \<open>i\<close> at position \<open>i\<close> of the buffer
  and joins the buffer from position 0 on, so the event is \<open>(5, 1X)\<close>: the first character
  is the lowest bit. This holds in either order of declaration.
\<close>

theorem two_bit_low_bit_first:
  assumes "bit_index v1 = Idx 1" and "bit_index v0 = Idx 0"
      and "id_code v1 \<noteq> id_code v0"
      and "vars = [(Idx 1, v1), (Idx 0, v0)] \<or> vars = [(Idx 0, v0), (Idx 1, v1)]"
      and "time_changes tokens =
             Inr [(5, [\<lparr>change_id = id_code v0, change_value = StrV ''1''\<rparr>])]"
  shows "to_events tokens vars = Inr [\<lparr>time = 5, val = ''1X''\<rparr>]"
  using assms
  by (auto simp: to_events_def sorted_desc_def dict_values_def store_bit_def list_assign_def)

theorem two_bit_low_bit_first_witness:
  "bit_index \<lparr>id_code = ''!'', reference = ''a'', bit_index = Idx 1\<rparr> = Idx 1
   \<and> bit_index \<lparr>id_code = ''#'', reference = ''a'', bit_index = Idx 0\<rparr> = Idx 0
   \<and> id_code \<lparr>id_code = ''!'', reference = ''a'', bit_index = Idx 1\<rparr>
       \<noteq> id_code \<lparr>id_code = ''#'', reference = ''a'', bit_index = Idx 0\<rparr>
   \<and> time_changes [TScope ''m'',
         TVar \<lparr>id_code = ''!'', reference = ''a'', bit_index = Idx 1\<rparr>,
         TVar \<lparr>id_code = ''#'', reference = ''a'', bit_index = Idx 0\<rparr>,
         TChangeTime 5, TChangeScalar \<lparr>change_id = ''#'', change_value = StrV ''1''\<rparr>]
       = Inr [(5, [\<lparr>change_id = ''#'', change_value = StrV ''1''\<rparr>])]
   \<and> to_events [TScope ''m'',
         TVar \<lparr>id_code = ''!'', reference = ''a'', bit_index = Idx 1\<rparr>,
         TVar \<lparr>id_code = ''#'', reference = ''a'', bit_index = Idx 0\<rparr>,
         TChangeTime 5, TChangeScalar \<lparr>change_id = ''#'', change_value = StrV ''1''\<rparr>]
        [(Idx 1, \<lparr>id_code = ''!'', reference = ''a'', bit_index = Idx 1\<rparr>),
         (Idx 0, \<lparr>id_code = ''#'', reference = ''a'', bit_index = Idx 0\<rparr>)]
       = Inr [\<lparr>time = 5, val = ''1X''\<rparr>]"
  using two_bit_low_bit_first
    [of "\<lparr>id_code = ''!'', reference = ''a'', bit_index = Idx 1\<rparr>"
        "\<lparr>id_code = ''#'', reference = ''a'', bit_index = Idx 0\<rparr>"
        "[(Idx 1, \<lparr>id_code = ''!'', reference = ''a'', bit_index = Idx 1\<rparr>),
          (Idx 0, \<lparr>id_code = ''#'', reference = ''a'', bit_index = Idx 0\<rparr>)]"
        "[TScope ''m'',
          TVar \<lparr>id_code = ''!'', reference = ''a'', bit_index = Idx 1\<rparr>,
          TVar \<lparr>id_code = ''#'', reference = ''a'', bit_index = Idx 0\<rparr>,
          TChangeTime 5, TChangeScalar \<lparr>change_id = ''#'', change_value = StrV ''1''\<rparr>]"]
  by (simp add: time_changes_def)

text \<open>
  C4, counterexample. On the token sequence of the scenario the reconstructor gives the channel with the one
  event \<open>(5, 1X)\<close>, not \<open>(5, X1)\<close>.
\<close>

theorem scenario_E_counterexample:
  "to_channel [TScope ''m'',
         TVar \<lparr>id_code = ''!'', reference = ''a'', bit_index = Idx 1\<rparr>,
         TVar \<lparr>id_code = ''#'', reference = ''a'', bit_index = Idx 0\<rparr>,
         TChangeTime 5, TChangeScalar \<lparr>change_id = ''#'', change_value = StrV ''1''\<rparr>]
     = Inr [\<lparr>size_ch = 2, module = ''m'', name = ''a'', events = [\<lparr>time = 5, val = ''1X''\<rparr>]\<rparr>]
   \<and> to_events [TScope ''m'',
         TVar \<lparr>id_code = ''!'', reference = ''a'', bit_index = Idx 1\<rparr>,
         TVar \<lparr>id_code = ''#'', reference = ''a'', bit_index = Idx 0\<rparr>,
         TChangeTime 5, TChangeScalar \<lparr>change_id = ''#'', change_value = StrV ''1''\<rparr>]
        [(Idx 1, \<lparr>id_code = ''!'', reference = ''a'', bit_index = Idx 1\<rparr>),
         (Idx 0, \<lparr>id_code = ''#'', reference = ''a'', bit_index = Idx 0\<rparr>)]
       \<noteq> Inr [\<lparr>time = 5, val = ''X1''\<rparr>]"
  by code_simp

text \<open>
  C8. The claim: for siblings with the bit-indices \<open>0 .. N-1\<close>, in any order of
  declaration, every composite value has \<open>N\<close> characters. The code stores the value of a
  change whole in one position of the buffer, so this holds when every scalar or vector
  change of the token sequence that carries a sibling's id-code has a value of one
  character, as scalar changes have. Under the same two conditions \<open>to_events\<close> raises no
  exception of its own: when it raises, it is the exception that \<open>time_changes\<close> raises
  (a value change before the first timestamp marker).
\<close>

theorem composite_length_is_sibling_count:
  assumes "bit_index ` set (dict_values vars) = (\<lambda>i. Idx (int i)) ` {0..<length vars}"
      and "\<forall>c\<in>set (recorded tokens).
             (\<exists>v\<in>set (dict_values vars). change_id c = id_code v)
             \<longrightarrow> (\<exists>x. change_value c = StrV [x])"
  shows "(\<forall>evs. to_events tokens vars = Inr evs
                 \<longrightarrow> (\<forall>e\<in>set evs. length (val e) = length vars))
       \<and> (\<forall>err. to_events tokens vars = Inl err \<longrightarrow> time_changes tokens = Inl err)"
proof (cases "time_changes tokens")
  case (Inl err)
  from to_events_raises_time_changes [OF assms(1) Inl] Inl show ?thesis by simp
next
  case (Inr tc)
  have "\<forall>(t, cs)\<in>set tc. \<forall>c\<in>set cs.
          (\<exists>v\<in>set (dict_values vars). change_id c = id_code v)
          \<longrightarrow> (\<exists>x. change_value c = StrV [x])"
    using assms(2) time_changes_recorded [OF Inr] by blast
  from to_events_bit_buffer [OF assms(1) Inr this] show ?thesis by auto
qed

theorem composite_length_is_sibling_count_witness:
  "bit_index ` set (dict_values
     [(Idx 0, \<lparr>id_code = ''#'', reference = ''a'', bit_index = Idx 0\<rparr>),
      (Idx 1, \<lparr>id_code = ''!'', reference = ''a'', bit_index = Idx 1\<rparr>)])
     = (\<lambda>i. Idx (int i)) ` {0..<length
     [(Idx 0, \<lparr>id_code = ''#'', reference = ''a'', bit_index = Idx 0\<rparr>),
      (Idx 1, \<lparr>id_code = ''!'', reference = ''a'', bit_index = Idx 1\<rparr>)]}
   \<and> recorded
     [TScope ''m'',
      TVar \<lparr>id_code = ''#'', reference = ''a'', bit_index = Idx 0\<rparr>,
      TVar \<lparr>id_code = ''!'', reference = ''a'', bit_index = Idx 1\<rparr>,
      TChangeTime 0, TChangeScalar \<lparr>change_id = ''!'', change_value = StrV ''1''\<rparr>,
      TChangeTime 5, TChangeScalar \<lparr>change_id = ''#'', change_value = StrV ''0''\<rparr>]
     = [\<lparr>change_id = ''!'', change_value = StrV ''1''\<rparr>,
        \<lparr>change_id = ''#'', change_value = StrV ''0''\<rparr>]
   \<and> to_events
     [TScope ''m'',
      TVar \<lparr>id_code = ''#'', reference = ''a'', bit_index = Idx 0\<rparr>,
      TVar \<lparr>id_code = ''!'', reference = ''a'', bit_index = Idx 1\<rparr>,
      TChangeTime 0, TChangeScalar \<lparr>change_id = ''!'', change_value = StrV ''1''\<rparr>,
      TChangeTime 5, TChangeScalar \<lparr>change_id = ''#'', change_value = StrV ''0''\<rparr>]
     [(Idx 0, \<lparr>id_code = ''#'', reference = ''a'', bit_index = Idx 0\<rparr>),
      (Idx 1, \<lparr>id_code = ''!'', reference = ''a'', bit_index = Idx 1\<rparr>)]
     = Inr [\<lparr>time = 0, val = ''X1''\<rparr>, \<lparr>time = 5, val = ''01''\<rparr>]
   \<and> length (val \<lparr>time = 0, val = ''X1''\<rparr>) = length
     [(Idx 0, \<lparr>id_code = ''#'', reference = ''a'', bit_index = Idx 0\<rparr>),
      (Idx 1, \<lparr>id_code = ''!'', reference = ''a'', bit_index = Idx 1\<rparr>)]
   \<and> length (val \<lparr>time = 5, val = ''01''\<rparr>) = length
     [(Idx 0, \<lparr>id_code = ''#'', reference = ''a'', bit_index = Idx 0\<rparr>),
      (Idx 1, \<lparr>id_code = ''!'', reference = ''a'', bit_index = Idx 1\<rparr>)]
   \<and> recorded
     [TScope ''m'',
      TVar \<lparr>id_code = ''#'', reference = ''a'', bit_index = Idx 0\<rparr>,
      TVar \<lparr>id_code = ''!'', reference = ''a'', bit_index = Idx 1\<rparr>,
      TChangeScalar \<lparr>change_id = ''#'', change_value = StrV ''1''\<rparr>,
      TChangeTime 5, TChangeScalar \<lparr>change_id = ''!'', change_value = StrV ''0''\<rparr>]
     = [\<lparr>change_id = ''#'', change_value = StrV ''1''\<rparr>,
        \<lparr>change_id = ''!'', change_value = StrV ''0''\<rparr>]
   \<and> to_events
     [TScope ''m'',
      TVar \<lparr>id_code = ''#'', reference = ''a'', bit_index = Idx 0\<rparr>,
      TVar \<lparr>id_code = ''!'', reference = ''a'', bit_index = Idx 1\<rparr>,
      TChangeScalar \<lparr>change_id = ''#'', change_value = StrV ''1''\<rparr>,
      TChangeTime 5, TChangeScalar \<lparr>change_id = ''!'', change_value = StrV ''0''\<rparr>]
     [(Idx 0, \<lparr>id_code = ''#'', reference = ''a'', bit_index = Idx 0\<rparr>),
      (Idx 1, \<lparr>id_code = ''!'', reference = ''a'', bit_index = Idx 1\<rparr>)]
     = Inl UnboundLocalError
   \<and> time_changes
     [TScope ''m'',
      TVar \<lparr>id_code = ''#'', reference = ''a'', bit_index = Idx 0\<rparr>,
      TVar \<lparr>id_code = ''!'', reference = ''a'', bit_index = Idx 1\<rparr>,
      TChangeScalar \<lparr>change_id = ''#'', change_value = StrV ''1''\<rparr>,
      TChangeTime 5, TChangeScalar \<lparr>change_id = ''!'', change_value = StrV ''0''\<rparr>]
     = Inl UnboundLocalError"
proof -
  have h1: "bit_index ` set (dict_values
     [(Idx 0, \<lparr>id_code = ''#'', reference = ''a'', bit_index = Idx 0\<rparr>),
      (Idx 1, \<lparr>id_code = ''!'', reference = ''a'', bit_index = Idx 1\<rparr>)])
     = (\<lambda>i. Idx (int i)) ` {0..<length
     [(Idx 0, \<lparr>id_code = ''#'', reference = ''a'', bit_index = Idx 0\<rparr>),
      (Idx 1, \<lparr>id_code = ''!'', reference = ''a'', bit_index = Idx 1\<rparr>)]}"
    by (simp add: dict_values_def numeral_2_eq_2 atLeast0_lessThan_Suc insert_commute)
  have h2: "\<forall>c\<in>set (recorded
     [TScope ''m'',
      TVar \<lparr>id_code = ''#'', reference = ''a'', bit_index = Idx 0\<rparr>,
      TVar \<lparr>id_code = ''!'', reference = ''a'', bit_index = Idx 1\<rparr>,
      TChangeTime 0, TChangeScalar \<lparr>change_id = ''!'', change_value = StrV ''1''\<rparr>,
      TChangeTime 5, TChangeScalar \<lparr>change_id = ''#'', change_value = StrV ''0''\<rparr>]).
        (\<exists>v\<in>set (dict_values
     [(Idx 0, \<lparr>id_code = ''#'', reference = ''a'', bit_index = Idx 0\<rparr>),
      (Idx 1, \<lparr>id_code = ''!'', reference = ''a'', bit_index = Idx 1\<rparr>)]). change_id c = id_code v)
        \<longrightarrow> (\<exists>x. change_value c = StrV [x])"
    by (simp add: dict_values_def)
  have h3: "\<forall>c\<in>set (recorded
     [TScope ''m'',
      TVar \<lparr>id_code = ''#'', reference = ''a'', bit_index = Idx 0\<rparr>,
      TVar \<lparr>id_code = ''!'', reference = ''a'', bit_index = Idx 1\<rparr>,
      TChangeScalar \<lparr>change_id = ''#'', change_value = StrV ''1''\<rparr>,
      TChangeTime 5, TChangeScalar \<lparr>change_id = ''!'', change_value = StrV ''0''\<rparr>]).
        (\<exists>v\<in>set (dict_values
     [(Idx 0, \<lparr>id_code = ''#'', reference = ''a'', bit_index = Idx 0\<rparr>),
      (Idx 1, \<lparr>id_code = ''!'', reference = ''a'', bit_index = Idx 1\<rparr>)]). change_id c = id_code v)
        \<longrightarrow> (\<exists>x. change_value c = StrV [x])"
    by (simp add: dict_values_def)
  show ?thesis
    using h1 composite_length_is_sibling_count [OF h1 h2]
      composite_length_is_sibling_count [OF h1 h3]
    by (simp add: time_changes_def to_events_def sorted_desc_def dict_values_def
          store_bit_def list_assign_def)
qed

text \<open>
  C8, counterexample. A vector change carries a string of one character for each bit of its variable. With
  the siblings \<open>a[0]\<close> and \<open>a[1]\<close>, the vector change \<open>bxx\<close> for \<open>a[0]\<close> gives a composite
  value of three characters for a channel of two siblings.
\<close>

theorem vector_change_counterexample:
  "to_channel [TScope ''m'',
      TVar \<lparr>id_code = ''#'', reference = ''a'', bit_index = Idx 0\<rparr>,
      TVar \<lparr>id_code = ''!'', reference = ''a'', bit_index = Idx 1\<rparr>,
      TChangeTime 0, TChangeVector \<lparr>change_id = ''#'', change_value = StrV ''xx''\<rparr>]
   = Inr [\<lparr>size_ch = 2, module = ''m'', name = ''a'',
            events = [\<lparr>time = 0, val = ''xxX''\<rparr>]\<rparr>]"
  by code_simp

text \<open>
  C5. The claim: for a token sequence whose timestamp markers are strictly increasing,
  the events of every channel are strictly increasing in timestamp, and no two consecutive
  events have the same composite value. The first part holds. The code emits an event
  whenever a change carries a sibling's id-code, without comparing the new value with the
  old one, so the second part does not hold.
\<close>

theorem event_times_strictly_increasing:
  assumes "sorted_wrt (<) (timestamps tokens)"
      and "to_channel tokens = Inr chans"
      and "ch \<in> set chans"
  shows "sorted_wrt (<) (map time (events ch))"
proof -
  from to_channel_sound [OF assms(2,3)] obtain vars where
    "to_events tokens vars = Inr (events ch)"
    by blast
  then show ?thesis using assms(1) by (rule to_events_sorted)
qed

theorem event_times_strictly_increasing_witness:
  "sorted_wrt (<) (timestamps [TScope ''m'',
      TVar \<lparr>id_code = ''!'', reference = ''clk'', bit_index = NoIndex\<rparr>,
      TChangeTime 0, TChangeScalar \<lparr>change_id = ''!'', change_value = StrV ''0''\<rparr>,
      TChangeTime 10, TChangeScalar \<lparr>change_id = ''!'', change_value = StrV ''1''\<rparr>])
   \<and> to_channel [TScope ''m'',
      TVar \<lparr>id_code = ''!'', reference = ''clk'', bit_index = NoIndex\<rparr>,
      TChangeTime 0, TChangeScalar \<lparr>change_id = ''!'', change_value = StrV ''0''\<rparr>,
      TChangeTime 10, TChangeScalar \<lparr>change_id = ''!'', change_value = StrV ''1''\<rparr>]
     = Inr [\<lparr>size_ch = 1, module = ''m'', name = ''clk'',
              events = [\<lparr>time = 0, val = ''0''\<rparr>, \<lparr>time = 10, val = ''1''\<rparr>]\<rparr>]
   \<and> sorted_wrt (<) (map time (events \<lparr>size_ch = 1, module = ''m'', name = ''clk'',
              events = [\<lparr>time = 0, val = ''0''\<rparr>, \<lparr>time = 10, val = ''1''\<rparr>]\<rparr>))"
  using event_times_strictly_increasing
    [of "[TScope ''m'',
      TVar \<lparr>id_code = ''!'', reference = ''clk'', bit_index = NoIndex\<rparr>,
      TChangeTime 0, TChangeScalar \<lparr>change_id = ''!'', change_value = StrV ''0''\<rparr>,
      TChangeTime 10, TChangeScalar \<lparr>change_id = ''!'', change_value = StrV ''1''\<rparr>]"
      "[\<lparr>size_ch = 1, module = ''m'', name = ''clk'',
              events = [\<lparr>time = 0, val = ''0''\<rparr>, \<lparr>time = 10, val = ''1''\<rparr>]\<rparr>]"
      "\<lparr>size_ch = 1, module = ''m'', name = ''clk'',
              events = [\<lparr>time = 0, val = ''0''\<rparr>, \<lparr>time = 10, val = ''1''\<rparr>]\<rparr>"]
  by (simp add: to_channel_def scope_vars_def time_changes_def to_events_def sorted_desc_def
        dict_values_def dict_keys_def store_bit_def list_assign_def)

text \<open>
  C5, counterexample. A change that repeats the value of the signal (as a \<open>$dumpall\<close> section does) gives two
  consecutive events with the same value.
\<close>

theorem repeated_value_counterexample:
  "sorted_wrt (<) (timestamps [TScope ''m'',
      TVar \<lparr>id_code = ''!'', reference = ''clk'', bit_index = NoIndex\<rparr>,
      TChangeTime 0, TChangeScalar \<lparr>change_id = ''!'', change_value = StrV ''1''\<rparr>,
      TChangeTime 5, TChangeScalar \<lparr>change_id = ''!'', change_value = StrV ''1''\<rparr>])
   \<and> to_channel [TScope ''m'',
      TVar \<lparr>id_code = ''!'', reference = ''clk'', bit_index = NoIndex\<rparr>,
      TChangeTime 0, TChangeScalar \<lparr>change_id = ''!'', change_value = StrV ''1''\<rparr>,
      TChangeTime 5, TChangeScalar \<lparr>change_id = ''!'', change_value = StrV ''1''\<rparr>]
     = Inr [\<lparr>size_ch = 1, module = ''m'', name = ''clk'',
              events = [\<lparr>time = 0, val = ''1''\<rparr>, \<lparr>time = 5, val = ''1''\<rparr>]\<rparr>]"
  by code_simp

text \<open>
  C2. The claim: a value change whose id-code matches no declaration of the Declaration
  Index aborts the reconstruction with an error. The code has no such check: \<open>to_events\<close>
  compares the id-code of a change with the id-codes of the siblings of one channel and
  passes over a change that matches none. So a change token, after a timestamp marker,
  whose id-code no declaration of the index carries leaves the result of \<open>to_channel\<close>
  (the channels, or the exception raised for another reason) exactly as it is without the
  token.
\<close>

theorem undeclared_change_is_ignored:
  assumes "is_change c tok"
      and "TChangeTime t \<in> set pre"
      and "scope_vars (pre @ tok # post) = Inr index"
      and "change_id c \<notin> id_code ` set (declarations index)"
  shows "to_channel (pre @ tok # post) = to_channel (pre @ post)"
proof -
  have i: "scope_vars (pre @ post) = Inr index"
    using scope_vars_insert [OF assms(1), of pre post] assms(3) by simp
  have "\<forall>(m, grp)\<in>set index. \<forall>(n, vars)\<in>set grp.
          to_events (pre @ tok # post) vars = to_events (pre @ post) vars"
  proof (clarify)
    fix m grp n vars
    assume "(m, grp) \<in> set index" and "(n, vars) \<in> set grp"
    have "\<forall>v\<in>set (dict_values vars). id_code v \<noteq> change_id c"
    proof
      fix v assume "v \<in> set (dict_values vars)"
      with \<open>(m, grp) \<in> set index\<close> \<open>(n, vars) \<in> set grp\<close>
      have "v \<in> set (declarations index)" by (rule declarations_member)
      with assms(4) show "id_code v \<noteq> change_id c" by (metis image_eqI)
    qed
    with assms(1,2) show "to_events (pre @ tok # post) vars = to_events (pre @ post) vars"
      by (rule to_events_insert)
  qed
  then have "modules_loop (pre @ tok # post) index [] = modules_loop (pre @ post) index []"
    by (rule modules_loop_cong)
  then show ?thesis by (simp add: to_channel_def assms(3) i)
qed

theorem undeclared_change_is_ignored_witness:
  "is_change \<lparr>change_id = ''?'', change_value = StrV ''0''\<rparr>
     (TChangeScalar \<lparr>change_id = ''?'', change_value = StrV ''0''\<rparr>)
   \<and> TChangeTime 0 \<in> set
     [TScope ''m'', TVar \<lparr>id_code = ''!'', reference = ''clk'', bit_index = NoIndex\<rparr>,
      TChangeTime 0, TChangeScalar \<lparr>change_id = ''!'', change_value = StrV ''1''\<rparr>]
   \<and> scope_vars
     ([TScope ''m'', TVar \<lparr>id_code = ''!'', reference = ''clk'', bit_index = NoIndex\<rparr>,
      TChangeTime 0, TChangeScalar \<lparr>change_id = ''!'', change_value = StrV ''1''\<rparr>]
      @ TChangeScalar \<lparr>change_id = ''?'', change_value = StrV ''0''\<rparr>
      # [TChangeTime 5, TChangeScalar \<lparr>change_id = ''!'', change_value = StrV ''0''\<rparr>])
     = Inr [(''m'', [(''clk'', [(NoIndex, \<lparr>id_code = ''!'', reference = ''clk'', bit_index = NoIndex\<rparr>)])])]
   \<and> change_id \<lparr>change_id = ''?'', change_value = StrV ''0''\<rparr>
       \<notin> id_code ` set (declarations [(''m'', [(''clk'', [(NoIndex, \<lparr>id_code = ''!'', reference = ''clk'', bit_index = NoIndex\<rparr>)])])])
   \<and> to_channel
     ([TScope ''m'', TVar \<lparr>id_code = ''!'', reference = ''clk'', bit_index = NoIndex\<rparr>,
      TChangeTime 0, TChangeScalar \<lparr>change_id = ''!'', change_value = StrV ''1''\<rparr>]
      @ TChangeScalar \<lparr>change_id = ''?'', change_value = StrV ''0''\<rparr>
      # [TChangeTime 5, TChangeScalar \<lparr>change_id = ''!'', change_value = StrV ''0''\<rparr>])
     = to_channel
     ([TScope ''m'', TVar \<lparr>id_code = ''!'', reference = ''clk'', bit_index = NoIndex\<rparr>,
      TChangeTime 0, TChangeScalar \<lparr>change_id = ''!'', change_value = StrV ''1''\<rparr>]
      @ [TChangeTime 5, TChangeScalar \<lparr>change_id = ''!'', change_value = StrV ''0''\<rparr>])"
  using undeclared_change_is_ignored
    [of "\<lparr>change_id = ''?'', change_value = StrV ''0''\<rparr>"
        "TChangeScalar \<lparr>change_id = ''?'', change_value = StrV ''0''\<rparr>"
        0
        "[TScope ''m'', TVar \<lparr>id_code = ''!'', reference = ''clk'', bit_index = NoIndex\<rparr>,
      TChangeTime 0, TChangeScalar \<lparr>change_id = ''!'', change_value = StrV ''1''\<rparr>]"
        "[TChangeTime 5, TChangeScalar \<lparr>change_id = ''!'', change_value = StrV ''0''\<rparr>]"
        "[(''m'', [(''clk'', [(NoIndex, \<lparr>id_code = ''!'', reference = ''clk'', bit_index = NoIndex\<rparr>)])])]"]
  by (simp add: is_change_def scope_vars_def declarations_def dict_values_def dict_keys_def)

text \<open>
  C2, counterexample. With the change \<open>0?\<close> for the undeclared id-code \<open>?\<close>, the reconstruction completes and
  the channel \<open>clk\<close> has the events of its own id-code.
\<close>

theorem undeclared_change_counterexample:
  "to_channel
     [TScope ''m'', TVar \<lparr>id_code = ''!'', reference = ''clk'', bit_index = NoIndex\<rparr>,
      TChangeTime 0, TChangeScalar \<lparr>change_id = ''!'', change_value = StrV ''1''\<rparr>,
      TChangeScalar \<lparr>change_id = ''?'', change_value = StrV ''0''\<rparr>,
      TChangeTime 5, TChangeScalar \<lparr>change_id = ''!'', change_value = StrV ''0''\<rparr>]
   = Inr [\<lparr>size_ch = 1, module = ''m'', name = ''clk'',
            events = [\<lparr>time = 0, val = ''1''\<rparr>, \<lparr>time = 5, val = ''0''\<rparr>]\<rparr>]"
  by code_simp

end
